theory Spec2Isabelle
  imports Complex_Main "HOL-Library.Char_ord" "HOL-Library.List_Lexorder"
begin

section \<open>Data model (GanttViewControl.tsx)\<close>

text \<open>
  A \<open>Date\<close> is its time value, an integer number of milliseconds since the epoch;
  a nullable date is an \<open>int option\<close>.  The field \<open>id\<close> of the source type is
  \<open>row_id\<close> here.  The fields \<open>progress\<close> and \<open>sourceRowType\<close> are read by none
  of the functions below and are left out.  Strings are modelled over ASCII.
\<close>

datatype GanttRow = GanttRow
  (row_id: string)
  (sourceId: "string option")
  (name: string)
  (assigned: "string option")
  (startDate: "int option")
  (endDate: "int option")
  (rowType: "string option")
  (parentId: string)
  (level: "nat option")
  (milestones: "GanttRow list")

datatype SortField = SortName | SortStartDate | SortEndDate

datatype SortDir = Asc | Desc

text \<open>The exceptions that the modelled code can raise.\<close>

datatype error = RangeError | TypeError

definition MAX_SAFE_INTEGER :: int where
  "MAX_SAFE_INTEGER = 9007199254740991"

text \<open>The largest magnitude of a valid \<open>Date\<close> time value (ECMAScript time clip).\<close>

definition MAX_TIME :: int where
  "MAX_TIME = 8640000000000000"

definition validDate :: "int option \<Rightarrow> bool" where
  "validDate d = (case d of None \<Rightarrow> True | Some t \<Rightarrow> - MAX_TIME \<le> t \<and> t \<le> MAX_TIME)"

section \<open>String helpers\<close>

definition lowerChar :: "char \<Rightarrow> char" where
  "lowerChar c = (if CHR ''A'' \<le> c \<and> c \<le> CHR ''Z'' then char_of (of_char c + (32::nat)) else c)"

definition toLowerCase :: "string \<Rightarrow> string" where
  "toLowerCase s = map lowerChar s"

text \<open>\<open>(r.rowType || "").toLowerCase() === "milestone"\<close>\<close>

definition isMilestone :: "GanttRow \<Rightarrow> bool" where
  "isMilestone r =
     (toLowerCase (case rowType r of None \<Rightarrow> [] | Some t \<Rightarrow> t) = ''milestone'')"

section \<open>Hierarchy ordering: \<open>orderGanttRows\<close>\<close>

text \<open>
  \<open>valFor\<close> of the comparator for the two date fields: the time value, or
  \<open>Number.MAX_SAFE_INTEGER\<close> for an absent date.  (A \<open>Date\<close> object is always truthy.)
\<close>

definition valForDate :: "int option \<Rightarrow> int" where
  "valForDate d = (case d of Some t \<Rightarrow> t | None \<Rightarrow> MAX_SAFE_INTEGER)"

text \<open>
  The comparator \<open>compare\<close>.  Strings are compared with \<open><\<close> by code unit;
  \<open>localeCompare\<close> depends on the host's locale and is the parameter \<open>lc\<close>.
\<close>

definition compare ::
  "(string \<Rightarrow> string \<Rightarrow> int) \<Rightarrow> SortField \<Rightarrow> SortDir \<Rightarrow> GanttRow \<Rightarrow> GanttRow \<Rightarrow> int" where
  "compare lc sortField sortDir a b =
     (let dir = (if sortDir = Asc then 1 else - 1);
          lt = (case sortField of
                  SortName \<Rightarrow> toLowerCase (name a) < toLowerCase (name b)
                | SortStartDate \<Rightarrow> valForDate (startDate a) < valForDate (startDate b)
                | SortEndDate \<Rightarrow> valForDate (endDate a) < valForDate (endDate b));
          gt = (case sortField of
                  SortName \<Rightarrow> toLowerCase (name a) > toLowerCase (name b)
                | SortStartDate \<Rightarrow> valForDate (startDate a) > valForDate (startDate b)
                | SortEndDate \<Rightarrow> valForDate (endDate a) > valForDate (endDate b));
          an = toLowerCase (name a);
          bn = toLowerCase (name b)
      in if lt then - 1 * dir
         else if gt then 1 * dir
         else if an < bn then - 1
         else if an > bn then 1
         else lc (row_id a) (row_id b))"

text \<open>
  \<open>Array.prototype.sort\<close> with a comparator is a stable sort; it is modelled as
  insertion sort, an element moving behind those it compares greater than.
\<close>

fun insertRow :: "(GanttRow \<Rightarrow> GanttRow \<Rightarrow> int) \<Rightarrow> GanttRow \<Rightarrow> GanttRow list \<Rightarrow> GanttRow list" where
  "insertRow c x [] = [x]"
| "insertRow c x (y # ys) = (if c x y > 0 then y # insertRow c x ys else x # y # ys)"

definition sortList :: "(GanttRow \<Rightarrow> GanttRow \<Rightarrow> int) \<Rightarrow> GanttRow list \<Rightarrow> GanttRow list" where
  "sortList c xs = foldr (insertRow c) xs []"

text \<open>
  \<open>childrenMap\<close> is a plain object \<open>{}\<close>, so a key that names a member of
  \<open>Object.prototype\<close> reads that member instead of \<open>undefined\<close>; calling
  \<open>push\<close> or \<open>forEach\<close> on it raises a \<open>TypeError\<close>.
\<close>

definition objectPrototypeKeys :: "string list" where
  "objectPrototypeKeys =
     [''constructor'', ''hasOwnProperty'', ''isPrototypeOf'', ''propertyIsEnumerable'',
      ''toLocaleString'', ''toString'', ''valueOf'', ''__proto__'',
      ''__defineGetter__'', ''__defineSetter__'', ''__lookupGetter__'', ''__lookupSetter__'']"

text \<open>\<open>childrenMap[k] || []\<close> for a key that is the map's own.\<close>

definition entries :: "(string \<rightharpoonup> GanttRow list) \<Rightarrow> string \<Rightarrow> GanttRow list" where
  "entries m k = (case m k of None \<Rightarrow> [] | Some l \<Rightarrow> l)"

fun indexChildren ::
  "GanttRow list \<Rightarrow> (string \<rightharpoonup> GanttRow list) \<Rightarrow> error + (string \<rightharpoonup> GanttRow list)" where
  "indexChildren [] m = Inr m"
| "indexChildren (r # rs) m =
     (let pid = parentId r
      in if pid \<in> set objectPrototypeKeys then Inl TypeError
         else indexChildren rs (m(pid \<mapsto> entries m pid @ [r])))"

text \<open>\<open>const kids = childrenMap[row.id] || []\<close>, then \<open>kids.forEach\<close>.\<close>

definition kidsOf :: "(string \<rightharpoonup> GanttRow list) \<Rightarrow> string \<Rightarrow> error + GanttRow list" where
  "kidsOf m k =
     (if k \<in> set objectPrototypeKeys then Inl TypeError else Inr (entries m k))"

text \<open>A \<open>forEach\<close> whose callback appends to \<open>result\<close>; the first exception ends it.\<close>

fun collect :: "(error + 'a list) list \<Rightarrow> error + 'a list" where
  "collect [] = Inr []"
| "collect (Inl e # rs) = Inl e"
| "collect (Inr xs # rs) = (case collect rs of Inl e \<Rightarrow> Inl e | Inr ys \<Rightarrow> Inr (xs @ ys))"

definition annotate :: "GanttRow \<Rightarrow> nat \<Rightarrow> GanttRow list \<Rightarrow> GanttRow" where
  "annotate r lvl ms =
     GanttRow (row_id r) (sourceId r) (name r) (assigned r) (startDate r) (endDate r)
       (rowType r) (parentId r) (Some lvl) ms"

text \<open>
  \<open>process\<close> is recursive on the call stack: the first argument is the number of
  nested calls the engine still allows, and running out of it is the engine's
  \<open>RangeError\<close>.  The row is pushed with its level and milestones set, before its
  task children are processed.  The source mutates the row object and pushes a
  reference to it; the model pushes the row as it is at that moment, which is the
  same as long as no row object is processed twice.  The milestones attached to a
  row are the dataset's own objects, left as they are.
\<close>

fun process ::
  "nat \<Rightarrow> (GanttRow \<Rightarrow> GanttRow \<Rightarrow> int) \<Rightarrow> (string \<rightharpoonup> GanttRow list) \<Rightarrow> GanttRow \<Rightarrow> nat
     \<Rightarrow> error + GanttRow list" where
  "process 0 c m row lvl = Inl RangeError"
| "process (Suc n) c m row lvl =
     (case kidsOf m (row_id row) of
        Inl e \<Rightarrow> Inl e
      | Inr kids \<Rightarrow>
          (let ms = filter isMilestone kids;
               taskKids = sortList c (filter (\<lambda>k. \<not> isMilestone k) kids)
           in case collect (map (\<lambda>child. process n c m child (lvl + 1)) taskKids) of
                Inl e \<Rightarrow> Inl e
              | Inr rest \<Rightarrow> Inr (annotate row lvl ms # rest)))"

definition orderGanttRows ::
  "nat \<Rightarrow> (string \<Rightarrow> string \<Rightarrow> int) \<Rightarrow> SortField \<Rightarrow> SortDir \<Rightarrow> GanttRow list
     \<Rightarrow> error + GanttRow list" where
  "orderGanttRows stack lc sortField sortDir props_data =
     (let data = filter (\<lambda>r. name r \<noteq> ''val'') props_data
      in case indexChildren data Map.empty of
           Inl e \<Rightarrow> Inl e
         | Inr childrenMap \<Rightarrow>
             (let c = compare lc sortField sortDir;
                  roots = sortList c
                    (filter (\<lambda>r. \<not> isMilestone r) (entries childrenMap []))
              in collect (map (\<lambda>r. process stack c childrenMap r 0) roots)))"

text \<open>The rows that pass the sentinel filter at the head of \<open>orderGanttRows\<close>.\<close>

definition liveRows :: "GanttRow list \<Rightarrow> GanttRow list" where
  "liveRows props_data = filter (\<lambda>r. name r \<noteq> ''val'') props_data"

text \<open>The milestone children that \<open>process\<close> attaches to a row.\<close>

definition milestonesOf :: "GanttRow list \<Rightarrow> GanttRow \<Rightarrow> GanttRow list" where
  "milestonesOf props_data r =
     filter isMilestone (filter (\<lambda>k. parentId k = row_id r) (liveRows props_data))"

text \<open>
  A dataset row is an element of a returned sequence when that sequence holds the
  row with some level and some milestone list written into it.
\<close>

definition rendered :: "GanttRow list \<Rightarrow> GanttRow \<Rightarrow> bool" where
  "rendered res r = (\<exists>x\<in>set res. \<exists>l ms. x = annotate r l ms)"

text \<open>The form in which \<open>process\<close> pushes a row, for an index \<open>m\<close>.\<close>

definition pushed :: "(string \<rightharpoonup> GanttRow list) \<Rightarrow> GanttRow \<Rightarrow> GanttRow \<Rightarrow> bool" where
  "pushed m r x = (\<exists>l. x = annotate r l (filter isMilestone (entries m (row_id r))))"

text \<open>
  A sequence lists parents first, relative to a set of ids taken as known, when every
  row's \<open>parentId\<close> is known or is the id of a row earlier in the sequence.
\<close>

fun parentsFirst :: "string set \<Rightarrow> GanttRow list \<Rightarrow> bool" where
  "parentsFirst S [] = True"
| "parentsFirst S (x # xs) = (parentId x \<in> S \<and> parentsFirst (insert (row_id x) S) xs)"

section \<open>Example datasets\<close>

definition mkRow :: "string \<Rightarrow> string \<Rightarrow> int option \<Rightarrow> int option \<Rightarrow> string \<Rightarrow> string \<Rightarrow> GanttRow" where
  "mkRow i n s e t p = GanttRow i None n None s e (Some t) p None []"

text \<open>A stand-in for \<open>localeCompare\<close> in examples: comparison by code unit.\<close>

definition codeUnitOrder :: "string \<Rightarrow> string \<Rightarrow> int" where
  "codeUnitOrder a b = (if a < b then - 1 else if b < a then 1 else 0)"

definition sentinelData :: "GanttRow list" where
  "sentinelData =
     [mkRow ''1'' ''val'' None None ''project'' [],
      mkRow ''2'' ''Val'' None None ''project'' [],
      mkRow ''3'' ''VAL'' None None ''tender'' [],
      mkRow ''4'' '' val '' None None ''project'' ''2'',
      mkRow ''5'' ''val'' None None ''milestone'' ''2'']"

definition orphanData :: "GanttRow list" where
  "orphanData =
     [mkRow ''a'' ''Alpha'' None None ''project'' [],
      mkRow ''b'' ''Beta'' None None ''project'' ''zzz'',
      mkRow ''c'' ''Gamma'' None None ''tender'' ''a'',
      mkRow ''d'' ''Delta'' None None ''milestone'' []]"

definition droppedParentData :: "GanttRow list" where
  "droppedParentData =
     [mkRow ''p'' ''Plan'' None None ''project'' ''zzz'',
      mkRow ''m'' ''Kickoff'' (Some 5) (Some 5) ''milestone'' ''p'']"

definition milestoneData :: "GanttRow list" where
  "milestoneData =
     [mkRow ''p'' ''Plan'' (Some 1) (Some 9) ''project'' [],
      mkRow ''m'' ''Kickoff'' (Some 5) (Some 5) ''Milestone'' ''p'',
      mkRow ''n'' ''Loose'' (Some 6) (Some 6) ''milestone'' [],
      mkRow ''o'' ''Lost'' (Some 7) (Some 7) ''milestone'' ''zzz'']"

section \<open>Sibling order in the returned sequence\<close>

text \<open>\<open>row.level || 0\<close>, as the table reads the level of a row.\<close>

definition levelOf :: "GanttRow \<Rightarrow> nat" where
  "levelOf r = (case level r of None \<Rightarrow> 0 | Some l \<Rightarrow> l)"

text \<open>
  The sequence is a pre-order walk, so the siblings of a row that follow it are the
  rows of its level met before the walk leaves the parent, that is before the first
  row of a smaller level.  \<open>siblingsFrom xs\<close> is the head of \<open>xs\<close> with its later
  siblings.
\<close>

definition siblingsFrom :: "GanttRow list \<Rightarrow> GanttRow list" where
  "siblingsFrom xs =
     (case xs of
        [] \<Rightarrow> []
      | a # _ \<Rightarrow> filter (\<lambda>r. levelOf r = levelOf a) (takeWhile (\<lambda>r. levelOf a \<le> levelOf r) xs))"

text \<open>The date the comparator reads for a date sort field.\<close>

definition sortDate :: "SortField \<Rightarrow> GanttRow \<Rightarrow> int option" where
  "sortDate sortField r = (if sortField = SortEndDate then endDate r else startDate r)"

text \<open>
  The rows that a direction moves to the end of a sibling group: in ascending order
  the rows without the sort date, in descending order the rows with one.
\<close>

definition sortsLate :: "SortField \<Rightarrow> SortDir \<Rightarrow> GanttRow \<Rightarrow> bool" where
  "sortsLate sortField sortDir r =
     (if sortDir = Asc then sortDate sortField r = None else sortDate sortField r \<noteq> None)"

text \<open>Once a row with \<open>P\<close> is met, the rows after it have \<open>P\<close>.\<close>

fun lateLast :: "(GanttRow \<Rightarrow> bool) \<Rightarrow> GanttRow list \<Rightarrow> bool" where
  "lateLast P [] = True"
| "lateLast P (x # xs) = ((P x \<longrightarrow> (\<forall>y\<in>set xs. P y)) \<and> lateLast P xs)"

text \<open>At every position: if the row has \<open>P\<close>, its later siblings have \<open>P\<close>.\<close>

fun siblingsLateLast :: "(GanttRow \<Rightarrow> bool) \<Rightarrow> GanttRow list \<Rightarrow> bool" where
  "siblingsLateLast P [] = True"
| "siblingsLateLast P (x # xs) =
     ((P x \<longrightarrow> (\<forall>b\<in>set (siblingsFrom (x # xs)). P b)) \<and> siblingsLateLast P xs)"

text \<open>
  What one call of \<open>process\<close> at level \<open>L\<close> appends: the row at level \<open>L\<close>, then
  rows of greater levels, with the sibling order respected inside.
\<close>

definition subtreeAt :: "(GanttRow \<Rightarrow> bool) \<Rightarrow> nat \<Rightarrow> GanttRow list \<Rightarrow> bool" where
  "subtreeAt P L zs =
     (zs \<noteq> [] \<and> levelOf (hd zs) = L \<and> (\<forall>x\<in>set (tl zs). L < levelOf x) \<and>
      siblingsLateLast P zs)"

definition undatedData :: "GanttRow list" where
  "undatedData =
     [mkRow ''a'' ''Alpha'' (Some 1700000000000) (Some 1710000000000) ''project'' [],
      mkRow ''b'' ''Beta'' None (Some 1720000000000) ''project'' [],
      mkRow ''c'' ''Gamma'' (Some 1690000000000) None ''tender'' [],
      mkRow ''d'' ''Delta'' None None ''project'' []]"

section \<open>Calendar arithmetic of \<open>Date\<close>\<close>

text \<open>
  The source reads and builds dates in local time.  The model takes the host's
  time zone to be UTC, without daylight saving, and the proleptic Gregorian calendar
  of ECMAScript.  A month is named by its index \<open>12 * year + month\<close>, the month
  counted from 0 as \<open>getMonth\<close> does; this is also how \<open>MakeDay\<close> normalises a month
  outside \<open>0..11\<close>.  Time values are unbounded integers: the time clip of
  \<open>Date\<close> at 8.64e15 ms is not modelled.
\<close>

definition msPerDay :: int where
  "msPerDay = 86400000"

text \<open>The number of days before 1 March of year \<open>y + 1\<close>, counted from 1 March of year 0.\<close>

definition yearDays :: "int \<Rightarrow> int" where
  "yearDays y = 365 * y + y div 4 - y div 100 + y div 400"

text \<open>The day number (days since 1 January 1970) of the first day of a month.\<close>

definition dayOfMonthStart :: "int \<Rightarrow> int" where
  "dayOfMonthStart M =
     (let y = M div 12;
          m = M mod 12 + 1;
          y' = (if m \<le> 2 then y - 1 else y);
          mp = (m + 9) mod 12
      in yearDays y' + (153 * mp + 2) div 5 - 719468)"

text \<open>\<open>Day(t)\<close> and \<open>TimeWithinDay(t)\<close>.\<close>

definition dayOf :: "int \<Rightarrow> int" where
  "dayOf t = t div msPerDay"

definition timeWithinDay :: "int \<Rightarrow> int" where
  "timeWithinDay t = t mod msPerDay"

lemma div_step:
  fixes y n :: int
  assumes "0 < n"
  shows "(y + 1) div n - y div n = (if n dvd (y + 1) then 1 else 0)"
proof -
  define q where "q = y div n"
  define r where "r = y mod n"
  have y: "y = n * q + r" by (simp add: q_def r_def)
  have r: "0 \<le> r" "r < n" using assms by (simp_all add: r_def)
  show ?thesis
  proof (cases "r + 1 = n")
    case True
    with y have y1: "y + 1 = n * (q + 1)" by (simp add: algebra_simps)
    with assms have "(y + 1) div n = q + 1" by simp
    moreover from y1 have "n dvd (y + 1)" by simp
    ultimately show ?thesis by (simp add: q_def)
  next
    case False
    with r have r1: "0 \<le> r + 1" "r + 1 < n" by simp_all
    from y have y1: "y + 1 = n * q + (r + 1)" by simp
    from y1 r1 have "(y + 1) div n = q" by (rule int_div_pos_eq)
    moreover from y1 r1 have "(y + 1) mod n = r + 1" by (rule int_mod_pos_eq)
    with r have "\<not> n dvd (y + 1)" by (simp add: dvd_eq_mod_eq_0)
    ultimately show ?thesis by (simp add: q_def)
  qed
qed

lemma yearDays_step:
  "365 \<le> yearDays (y + 1) - yearDays y \<and> yearDays (y + 1) - yearDays y \<le> 366"
proof -
  have d4: "(y + 1) div 4 - y div 4 = (if 4 dvd (y + 1) then 1 else 0)"
    by (rule div_step) simp
  have d100: "(y + 1) div 100 - y div 100 = (if 100 dvd (y + 1) then 1 else 0)"
    by (rule div_step) simp
  have d400: "(y + 1) div 400 - y div 400 = (if 400 dvd (y + 1) then 1 else 0)"
    by (rule div_step) simp
  have a: "100 dvd (y + 1) \<Longrightarrow> 4 dvd (y + 1)"
    by (rule dvd_trans [of 4 100]) simp_all
  have b: "400 dvd (y + 1) \<Longrightarrow> 100 dvd (y + 1)"
    by (rule dvd_trans [of 100 400]) simp_all
  have "yearDays (y + 1) - yearDays y =
      365 + ((y + 1) div 4 - y div 4) - ((y + 1) div 100 - y div 100) + ((y + 1) div 400 - y div 400)"
    by (simp add: yearDays_def)
  also have "\<dots> = 365 + (if 4 dvd (y + 1) then 1 else 0) - (if 100 dvd (y + 1) then 1 else 0)
      + (if 400 dvd (y + 1) then 1 else 0)"
    by (simp only: d4 d100 d400)
  finally show ?thesis using a b by auto
qed

lemma dayOfMonthStart_split:
  assumes "0 \<le> k" "k < 12"
  shows "dayOfMonthStart (12 * y + k) =
     yearDays (if k < 2 then y - 1 else y) + (153 * ((k + 10) mod 12) + 2) div 5 - 719468"
proof -
  have "(12 * y + k) div 12 = y" "(12 * y + k) mod 12 = k"
    using assms by simp_all
  then show ?thesis
    by (simp add: dayOfMonthStart_def Let_def add.commute)
qed

lemma month_length:
  "28 \<le> dayOfMonthStart (M + 1) - dayOfMonthStart M \<and> dayOfMonthStart (M + 1) - dayOfMonthStart M \<le> 31"
proof -
  define y where "y = M div 12"
  define k where "k = M mod 12"
  have M: "M = 12 * y + k" and k: "0 \<le> k" "k < 12"
    by (simp_all add: y_def k_def)
  have leap: "365 \<le> yearDays y - yearDays (y - 1) \<and> yearDays y - yearDays (y - 1) \<le> 366"
    using yearDays_step [of "y - 1"] by simp
  show ?thesis
  proof (cases "k = 11")
    case True
    have e1: "M + 1 = 12 * (y + 1) + 0" and e0: "M = 12 * y + 11"
      using M True by simp_all
    have "dayOfMonthStart (12 * (y + 1) + 0) = yearDays y + 306 - 719468"
      by (subst dayOfMonthStart_split) simp_all
    moreover have "dayOfMonthStart (12 * y + 11) = yearDays y + 275 - 719468"
      by (subst dayOfMonthStart_split) simp_all
    ultimately show ?thesis
      unfolding e1 unfolding e0 by simp
  next
    case False
    with k have k1: "0 \<le> k + 1" "k + 1 < 12" by simp_all
    have e1: "M + 1 = 12 * y + (k + 1)" using M by simp
    have s1: "dayOfMonthStart (M + 1) =
        yearDays (if k + 1 < 2 then y - 1 else y) + (153 * ((k + 1 + 10) mod 12) + 2) div 5 - 719468"
      unfolding e1 using k1 by (rule dayOfMonthStart_split)
    have s0: "dayOfMonthStart M =
        yearDays (if k < 2 then y - 1 else y) + (153 * ((k + 10) mod 12) + 2) div 5 - 719468"
      unfolding M using k by (rule dayOfMonthStart_split)
    from k False have "k = 0 \<or> k = 1 \<or> k = 2 \<or> k = 3 \<or> k = 4 \<or> k = 5 \<or> k = 6
      \<or> k = 7 \<or> k = 8 \<or> k = 9 \<or> k = 10"
      by presburger
    then show ?thesis
      using s0 s1 leap by (elim disjE) simp_all
  qed
qed


text \<open>
  The month that holds a day: the search starts at a month that begins on or before
  the day (no month has more than 31 days or fewer than 28) and walks forward while
  the next month has begun.
\<close>

function findMonth :: "int \<Rightarrow> int \<Rightarrow> int" where
  "findMonth M d = (if dayOfMonthStart (M + 1) \<le> d then findMonth (M + 1) d else M)"
  by pat_completeness auto
termination
proof (relation "measure (\<lambda>(M, d). nat (d + 1 - dayOfMonthStart (M + 1)))")
  show "wf (measure (\<lambda>(M, d). nat (d + 1 - dayOfMonthStart (M + 1))))" by simp
next
  fix M d :: int
  assume "dayOfMonthStart (M + 1) \<le> d"
  with month_length [of "M + 1"]
  show "((M + 1, d), (M, d)) \<in> measure (\<lambda>(M, d). nat (d + 1 - dayOfMonthStart (M + 1)))"
    by simp
qed

definition monthIndexOf :: "int \<Rightarrow> int" where
  "monthIndexOf t =
     (let d = dayOf t
      in findMonth (23640 + (if 0 \<le> d then d div 31 else d div 28 - 1)) d)"

definition getFullYear :: "int \<Rightarrow> int" where
  "getFullYear t = monthIndexOf t div 12"

definition getMonth :: "int \<Rightarrow> int" where
  "getMonth t = monthIndexOf t mod 12"

definition getDate :: "int \<Rightarrow> int" where
  "getDate t = dayOf t - dayOfMonthStart (monthIndexOf t) + 1"

text \<open>1 January 1970 was a Thursday.\<close>

definition getDay :: "int \<Rightarrow> int" where
  "getDay t = (dayOf t + 4) mod 7"

text \<open>
  \<open>new Date(year, month, date, hours, minutes, seconds, ms)\<close>; a year from 0 to 99
  stands for 1900 + year.
\<close>

definition centuryYear :: "int \<Rightarrow> int" where
  "centuryYear y = (if 0 \<le> y \<and> y \<le> 99 then 1900 + y else y)"

definition newDate :: "int \<Rightarrow> int \<Rightarrow> int \<Rightarrow> int \<Rightarrow> int \<Rightarrow> int \<Rightarrow> int \<Rightarrow> int" where
  "newDate y m d h mi s ms =
     (dayOfMonthStart (12 * centuryYear y + m) + d - 1) * msPerDay
       + h * 3600000 + mi * 60000 + s * 1000 + ms"

text \<open>\<open>d.setMonth(m)\<close> and \<open>d.setDate(n)\<close>, as the new time value.\<close>

definition setMonth :: "int \<Rightarrow> int \<Rightarrow> int" where
  "setMonth t m =
     (dayOfMonthStart (12 * getFullYear t + m) + getDate t - 1) * msPerDay + timeWithinDay t"

definition setDate :: "int \<Rightarrow> int \<Rightarrow> int" where
  "setDate t n =
     (dayOfMonthStart (monthIndexOf t) + n - 1) * msPerDay + timeWithinDay t"

lemma setMonth_next:
  "setMonth t (getMonth t + 1) =
     t + (dayOfMonthStart (monthIndexOf t + 1) - dayOfMonthStart (monthIndexOf t)) * msPerDay"
proof -
  have "12 * getFullYear t + (getMonth t + 1) = monthIndexOf t + 1"
    by (simp add: getFullYear_def getMonth_def)
  moreover have "dayOf t * msPerDay + timeWithinDay t = t"
    by (simp add: dayOf_def timeWithinDay_def)
  ultimately show ?thesis
    by (simp add: setMonth_def getDate_def algebra_simps)
qed

lemma setMonth_next_greater: "t < setMonth t (getMonth t + 1)"
  using month_length [of "monthIndexOf t"] by (simp add: setMonth_next msPerDay_def)

lemma setDate_shift: "setDate t (getDate t + k) = t + k * msPerDay"
proof -
  have "dayOf t * msPerDay + timeWithinDay t = t"
    by (simp add: dayOf_def timeWithinDay_def)
  then show ?thesis
    by (simp add: setDate_def getDate_def algebra_simps)
qed

section \<open>Timeline geometry\<close>

text \<open>The props and the state that the geometry functions read.\<close>

record Props =
  data :: "GanttRow list"
  ganttStartDate :: int
  ganttEndDate :: int

datatype ZoomLevel = ZoomMonth | ZoomWeek | ZoomYear

record TimelineBounds =
  b_start :: int
  b_end :: int
  b_months :: "int list"

record Segment =
  seg_start :: int
  seg_label :: string

text \<open>
  \<open>if (d && (!minStart || d < minStart)) minStart = d\<close> and its mirror image for
  \<open>maxEnd\<close>.
\<close>

definition pickMin :: "int option \<Rightarrow> int option \<Rightarrow> int option" where
  "pickMin d cur =
     (case d of
        None \<Rightarrow> cur
      | Some t \<Rightarrow> (case cur of None \<Rightarrow> Some t | Some c \<Rightarrow> if t < c then Some t else cur))"

definition pickMax :: "int option \<Rightarrow> int option \<Rightarrow> int option" where
  "pickMax d cur =
     (case d of
        None \<Rightarrow> cur
      | Some t \<Rightarrow> (case cur of None \<Rightarrow> Some t | Some c \<Rightarrow> if t > c then Some t else cur))"

text \<open>The body of \<open>this.props.data.forEach\<close>: the row, then its milestones.\<close>

definition scanRow :: "int option \<times> int option \<Rightarrow> GanttRow \<Rightarrow> int option \<times> int option" where
  "scanRow acc r =
     foldl (\<lambda>(minStart, maxEnd) m. (pickMin (startDate m) minStart, pickMax (endDate m) maxEnd))
       (pickMin (startDate r) (fst acc), pickMax (endDate r) (snd acc))
       (milestones r)"

function monthsLoop :: "int \<Rightarrow> int \<Rightarrow> int list" where
  "monthsLoop cursor lastMonthStart =
     (if cursor \<le> lastMonthStart
      then cursor # monthsLoop (setMonth cursor (getMonth cursor + 1)) lastMonthStart
      else [])"
  by pat_completeness auto
termination
proof (relation "measure (\<lambda>(cursor, lastMonthStart). nat (lastMonthStart + 1 - cursor))")
  show "wf (measure (\<lambda>(cursor, lastMonthStart). nat (lastMonthStart + 1 - cursor)))" by simp
next
  fix cursor lastMonthStart :: int
  assume "cursor \<le> lastMonthStart"
  with setMonth_next_greater [of cursor]
  show "((setMonth cursor (getMonth cursor + 1), lastMonthStart), (cursor, lastMonthStart))
      \<in> measure (\<lambda>(cursor, lastMonthStart). nat (lastMonthStart + 1 - cursor))"
    by simp
qed

definition getTimelineBounds :: "Props \<Rightarrow> TimelineBounds" where
  "getTimelineBounds props =
     (let (minStart0, maxEnd0) = foldl scanRow (None, None) (data props);
          minStart = (case minStart0 of None \<Rightarrow> ganttStartDate props | Some t \<Rightarrow> t);
          maxEnd = (case maxEnd0 of None \<Rightarrow> ganttEndDate props | Some t \<Rightarrow> t);
          start = newDate (getFullYear minStart) (getMonth minStart) 1 0 0 0 0;
          lastMonthStart = newDate (getFullYear maxEnd) (getMonth maxEnd) 1 0 0 0 0;
          months0 = monthsLoop start lastMonthStart;
          months = (if months0 = [] then [start] else months0);
          end = newDate (getFullYear lastMonthStart) (getMonth lastMonthStart + 1) 0 23 59 59 999
      in \<lparr>b_start = start, b_end = end, b_months = months\<rparr>)"

subsection \<open>Segment labels\<close>

function showNat :: "nat \<Rightarrow> string" where
  "showNat n =
     (if n < 10 then [char_of (48 + n)] else showNat (n div 10) @ [char_of (48 + n mod 10)])"
  by pat_completeness auto
termination
  by (relation "measure (\<lambda>n. n)") auto

text \<open>\<open>String(i)\<close> for an integer.\<close>

definition showInt :: "int \<Rightarrow> string" where
  "showInt i = (if i < 0 then CHR ''-'' # showNat (nat (- i)) else showNat (nat i))"

text \<open>The remainder operator \<open>%\<close>, which truncates toward zero.\<close>

definition jsRem :: "int \<Rightarrow> int \<Rightarrow> int" where
  "jsRem a b = sgn a * (\<bar>a\<bar> mod \<bar>b\<bar>)"

definition padStart2 :: "string \<Rightarrow> string" where
  "padStart2 s = replicate (2 - length s) CHR ''0'' @ s"

text \<open>
  \<open>Math.ceil(((wkStart - oneJan) / 86400000 + oneJan.getDay() + 1) / 7)\<close>, the
  quotient taken exactly.
\<close>

definition weekNum :: "int \<Rightarrow> int" where
  "weekNum wkStart =
     (let oneJan = newDate (getFullYear wkStart) 0 1 0 0 0 0
      in - ((- ((wkStart - oneJan) + (getDay oneJan + 1) * msPerDay)) div (7 * msPerDay)))"

subsection \<open>\<open>getSegments\<close>\<close>

text \<open>
  The month name of \<open>toLocaleString("default", {month: "short"})\<close> depends on the
  host's locale; it is the parameter \<open>monthShort\<close>.
\<close>

function monthSegments :: "(int \<Rightarrow> string) \<Rightarrow> int \<Rightarrow> int \<Rightarrow> Segment list" where
  "monthSegments monthShort cursor end =
     (if cursor \<le> end
      then \<lparr>seg_start = cursor,
            seg_label = monthShort (getMonth cursor) @ '' '' @
              padStart2 (showInt (jsRem (getFullYear cursor) 100))\<rparr>
           # monthSegments monthShort (setMonth cursor (getMonth cursor + 1)) end
      else [])"
  by pat_completeness auto
termination
proof (relation "measure (\<lambda>(monthShort, cursor, end). nat (end + 1 - cursor))")
  show "wf (measure (\<lambda>(monthShort :: int \<Rightarrow> string, cursor, end). nat (end + 1 - cursor)))"
    by simp
next
  fix monthShort :: "int \<Rightarrow> string" and cursor "end" :: int
  assume "cursor \<le> end"
  with setMonth_next_greater [of cursor]
  show "((monthShort, setMonth cursor (getMonth cursor + 1), end), (monthShort, cursor, end))
      \<in> measure (\<lambda>(monthShort, cursor, end). nat (end + 1 - cursor))"
    by simp
qed

function weekSegments :: "int \<Rightarrow> int \<Rightarrow> Segment list" where
  "weekSegments cursor end =
     (if cursor \<le> end
      then \<lparr>seg_start = cursor, seg_label = CHR ''W'' # showInt (weekNum cursor)\<rparr>
           # weekSegments (setDate cursor (getDate cursor + 7)) end
      else [])"
  by pat_completeness auto
termination
proof (relation "measure (\<lambda>(cursor, end). nat (end + 1 - cursor))")
  show "wf (measure (\<lambda>(cursor, end). nat (end + 1 - cursor)))" by simp
next
  fix cursor "end" :: int
  assume "cursor \<le> end"
  then show "((setDate cursor (getDate cursor + 7), end), (cursor, end))
      \<in> measure (\<lambda>(cursor, end). nat (end + 1 - cursor))"
    by (simp add: setDate_shift msPerDay_def)
qed

function yearSegments :: "int \<Rightarrow> int \<Rightarrow> Segment list" where
  "yearSegments y lastY =
     (if y \<le> lastY
      then \<lparr>seg_start = newDate y 0 1 0 0 0 0, seg_label = showInt y\<rparr> # yearSegments (y + 1) lastY
      else [])"
  by pat_completeness auto
termination
  by (relation "measure (\<lambda>(y, lastY). nat (lastY + 1 - y))") auto

text \<open>The segments pushed by the branch of the zoom level, before the fallback.\<close>

definition zoomSegments :: "(int \<Rightarrow> string) \<Rightarrow> ZoomLevel \<Rightarrow> int \<Rightarrow> int \<Rightarrow> Segment list" where
  "zoomSegments monthShort z start end =
     (case z of
        ZoomMonth \<Rightarrow>
          monthSegments monthShort (newDate (getFullYear start) (getMonth start) 1 0 0 0 0) end
      | ZoomWeek \<Rightarrow>
          (let diffToMonday = (getDay start + 6) mod 7
           in weekSegments (setDate start (getDate start - diffToMonday)) end)
      | ZoomYear \<Rightarrow> yearSegments (getFullYear start) (getFullYear end))"

definition getSegments :: "(int \<Rightarrow> string) \<Rightarrow> ZoomLevel \<Rightarrow> Props \<Rightarrow> Segment list" where
  "getSegments monthShort zoomLevel props =
     (let b = getTimelineBounds props;
          segments = zoomSegments monthShort zoomLevel (b_start b) (b_end b)
      in if length segments = 0 then [\<lparr>seg_start = b_start b, seg_label = []\<rparr>] else segments)"

subsection \<open>Dates to percentages\<close>

text \<open>
  The percentages are JavaScript numbers; the model computes them exactly, as
  reals.  \<open>None\<close> is the \<open>null\<close> date.
\<close>

definition calculateStartX :: "Props \<Rightarrow> int option \<Rightarrow> real" where
  "calculateStartX props date =
     (case date of
        None \<Rightarrow> - 1
      | Some d \<Rightarrow>
          (let b = getTimelineBounds props; start = b_start b; end = b_end b
           in if d < start then 0
              else if d > end then - 1
              else (real_of_int (d - start) / real_of_int (end - start)) * 100))"

definition calculateEndWidth :: "Props \<Rightarrow> int option \<Rightarrow> int option \<Rightarrow> real" where
  "calculateEndWidth props rowStart rowEnd =
     (case (rowStart, rowEnd) of
        (Some s, Some e) \<Rightarrow>
          (let b = getTimelineBounds props; start = b_start b; end = b_end b
           in if e < start \<or> s > end then - 1
              else (let clipStart = (if s < start then start else s);
                        clipEnd = (if e > end then end else e)
                    in if clipEnd \<le> clipStart then 2
                       else (real_of_int (clipEnd - clipStart) / real_of_int (end - start)) * 100))
      | _ \<Rightarrow> - 1)"

text \<open>Example props: one project from 1 January to 30 June 2024.\<close>

definition englishMonths :: "int \<Rightarrow> string" where
  "englishMonths m =
     [''Jan'', ''Feb'', ''Mar'', ''Apr'', ''May'', ''Jun'',
      ''Jul'', ''Aug'', ''Sep'', ''Oct'', ''Nov'', ''Dec''] ! nat m"

definition halfYearProps :: Props where
  "halfYearProps =
     \<lparr>data = [mkRow ''a'' ''Alpha'' (Some 1704067200000) (Some 1719705600000) ''project'' []],
      ganttStartDate = 0, ganttEndDate = 0\<rparr>"

text \<open>
  Example props with partly dated rows: one row starts on 15 June 2025 and has no
  end, the other ends on 10 January 2024 and has no start.
\<close>

definition invertedProps :: Props where
  "invertedProps =
     \<lparr>data = [mkRow ''a'' ''Alpha'' (Some 1749945600000) None ''project'' [],
              mkRow ''b'' ''Beta'' None (Some 1704844800000) ''tender'' []],
      ganttStartDate = 0, ganttEndDate = 0\<rparr>"

definition emptyProps :: Props where
  "emptyProps = \<lparr>data = [], ganttStartDate = 1704067200000, ganttEndDate = 1719705600000\<rparr>"

section \<open>Year-zoom pixel widths (\<open>GanttTable\<close>, \<open>perSegWidths\<close>)\<close>

text \<open>
  Pixel widths are integers in the model: the container width is a measured
  \<open>clientWidth\<close> and the column widths are whole pixels.  \<open>Math.floor\<close> of a quotient
  is integer division, the quotient taken exactly.

  The duration of each segment: up to the start of the next segment, and for the
  last one up to the axis end; never negative.
\<close>

fun segDurations :: "int list \<Rightarrow> int \<Rightarrow> int list" where
  "segDurations [] end = []"
| "segDurations [s] end = [max 0 (end - s)]"
| "segDurations (s # s' # rest) end = max 0 (s' - s) # segDurations (s' # rest) end"

text \<open>
  The loop that hands out the remainder, one pixel per step, round-robin from index
  \<open>ri\<close>; it stops early at a width that cannot shrink below 8.
\<close>

function redistribute :: "int list \<Rightarrow> int \<Rightarrow> nat \<Rightarrow> int list" where
  "redistribute perSegWidths remainder ri =
     (if remainder \<noteq> 0 \<and> length perSegWidths \<noteq> 0
      then (if remainder > 0
            then redistribute (perSegWidths[ri := perSegWidths ! ri + 1]) (remainder - 1)
                   ((ri + 1) mod length perSegWidths)
            else if remainder < 0 \<and> perSegWidths ! ri > 8
            then redistribute (perSegWidths[ri := perSegWidths ! ri - 1]) (remainder + 1)
                   ((ri + 1) mod length perSegWidths)
            else perSegWidths)
      else perSegWidths)"
  by pat_completeness auto
termination
  by (relation "measure (\<lambda>(perSegWidths, remainder, ri). nat \<bar>remainder\<bar>)") auto

declare redistribute.simps [simp del]

text \<open>The widths before the remainder is handed out: floored, and at least 8.\<close>

definition flooredWidths :: "int list \<Rightarrow> int \<Rightarrow> int \<Rightarrow> int \<Rightarrow> int list" where
  "flooredWidths segStarts start end availablePx =
     (let totalMs = (if end - start = 0 then 1 else end - start)
      in map (\<lambda>segMs. max 8 ((availablePx * segMs) div totalMs)) (segDurations segStarts end))"

definition perSegWidthsYear :: "int list \<Rightarrow> int \<Rightarrow> int \<Rightarrow> int \<Rightarrow> int list" where
  "perSegWidthsYear segStarts start end availablePx =
     (let perSegWidths = flooredWidths segStarts start end availablePx;
          remainder = availablePx - sum_list perSegWidths
      in redistribute perSegWidths remainder 0)"

text \<open>
  The cap on the table width at three container widths: the widths are scaled down
  and the last one absorbs the difference.
\<close>

definition capYearWidths :: "int \<Rightarrow> int \<Rightarrow> int list \<Rightarrow> int list" where
  "capYearWidths containerPx fixedWidth perSegWidths =
     (let tableWidthPx = fixedWidth + sum_list perSegWidths;
          maxTableWidth = containerPx * 3 + fixedWidth
      in if tableWidthPx > maxTableWidth
         then (let scaled = map (\<lambda>w. max 8 ((w * (maxTableWidth - fixedWidth)) div
                                             (tableWidthPx - fixedWidth))) perSegWidths;
                   sum2 = sum_list scaled;
                   target = maxTableWidth - fixedWidth
               in if sum2 \<noteq> target \<and> length scaled \<noteq> 0
                  then scaled[length scaled - 1 := scaled ! (length scaled - 1) + (target - sum2)]
                  else scaled)
         else perSegWidths)"

text \<open>
  The widths of the year zoom for a container of \<open>containerPx\<close> pixels whose sticky
  columns take \<open>fixedWidth\<close> pixels.
\<close>

definition availablePxOf :: "int \<Rightarrow> int \<Rightarrow> int" where
  "availablePxOf containerPx fixedWidth = max 0 (containerPx - fixedWidth)"

definition yearSegWidths :: "(int \<Rightarrow> string) \<Rightarrow> Props \<Rightarrow> int \<Rightarrow> int \<Rightarrow> int list" where
  "yearSegWidths monthShort props containerPx fixedWidth =
     (let b = getTimelineBounds props;
          segments = getSegments monthShort ZoomYear props;
          availablePx = availablePxOf containerPx fixedWidth
      in capYearWidths containerPx fixedWidth
           (perSegWidthsYear (map seg_start segments) (b_start b) (b_end b) availablePx))"




section \<open>End-date drag (\<open>startBarEndEdit\<close>, \<open>onBarDragMove\<close>, \<open>onGlobalMouseUp\<close>)\<close>

text \<open>
  Pointer coordinates and percentages are JavaScript numbers, modelled as reals.
  The field \<open>containerPx\<close> of the source is \<open>cellPx\<close> here.  Only the two fields of
  the component state that the drag touches are kept.  \<open>setState\<close> is taken to act
  at once.
\<close>

record EditingEndState =
  rowId :: string
  startX :: real
  rowLeftPct :: real
  startWidthPct :: real
  liveWidthPct :: real
  cellPx :: real
  winStart :: int
  winEnd :: int

record IGanttViewState =
  editingEnd :: "EditingEndState option"
  endDateOverrides :: "string \<rightharpoonup> int"

text \<open>\<open>new Date(x)\<close> for a number: the time value is \<open>x\<close> truncated toward zero.\<close>

definition dateOfNumber :: "real \<Rightarrow> int" where
  "dateOfNumber x = (if 0 \<le> x then \<lfloor>x\<rfloor> else \<lceil>x\<rceil>)"

definition startBarEndEdit ::
  "bool \<Rightarrow> IGanttViewState \<Rightarrow> real \<Rightarrow> string \<Rightarrow> real \<Rightarrow> real \<Rightarrow> int \<Rightarrow> int \<Rightarrow> real
     \<Rightarrow> IGanttViewState" where
  "startBarEndEdit adjustableEndDate st clientX rid leftPct widthPct ws we px =
     (if \<not> adjustableEndDate then st
      else st\<lparr>editingEnd :=
             Some \<lparr>rowId = rid, startX = clientX, rowLeftPct = leftPct,
                   startWidthPct = widthPct, liveWidthPct = widthPct, cellPx = px,
                   winStart = ws, winEnd = we\<rparr>\<rparr>)"

definition onBarDragMove :: "IGanttViewState \<Rightarrow> real \<Rightarrow> IGanttViewState" where
  "onBarDragMove st clientX =
     (case editingEnd st of
        None \<Rightarrow> st
      | Some edit \<Rightarrow>
          (let deltaPx = clientX - startX edit;
               deltaPct = (deltaPx / cellPx edit) * 100;
               w0 = startWidthPct edit + deltaPct;
               w1 = (if w0 < 1 then 1 else w0);
               w2 = (if w1 > 100 - rowLeftPct edit then 100 - rowLeftPct edit else w1)
           in if w2 \<noteq> liveWidthPct edit
              then st\<lparr>editingEnd := Some (edit\<lparr>liveWidthPct := w2\<rparr>)\<rparr>
              else st))"

text \<open>
  The release.  The second component of the result lists the calls of
  \<open>props.onEndDateChange\<close> made by it; \<open>hasCallback\<close> says whether the host passed one.
\<close>

definition onGlobalMouseUp ::
  "bool \<Rightarrow> bool \<Rightarrow> IGanttViewState \<Rightarrow> IGanttViewState \<times> (string \<times> int) list" where
  "onGlobalMouseUp adjustableEndDate hasCallback st =
     (case editingEnd st of
        None \<Rightarrow> (st, [])
      | Some edit \<Rightarrow>
          if \<not> adjustableEndDate then (st\<lparr>editingEnd := None\<rparr>, [])
          else
            (let start = winStart edit;
                 end = winEnd edit;
                 totalMs = end - start;
                 rightPct = rowLeftPct edit + liveWidthPct edit;
                 newEnd = dateOfNumber (real_of_int start + (rightPct / 100) * real_of_int totalMs)
             in (st\<lparr>editingEnd := None,
                    endDateOverrides := (endDateOverrides st)(rowId edit \<mapsto> newEnd)\<rparr>,
                 if hasCallback then [(rowId edit, newEnd)] else [])))"

subsection \<open>The year pixel map (\<open>GanttTable\<close>, \<open>yearSegMeta\<close>)\<close>

text \<open>
  In year zoom the bars are placed through a pixel map: for every segment its start,
  its end (the start of the next segment, the axis end for the last one), its width
  in pixels and the sum \<open>cum\<close> of the widths before it.  The fields \<open>start\<close>, \<open>end\<close>,
  \<open>width\<close> and \<open>cum\<close> of the source carry the prefix \<open>m_\<close> here.  There are as many
  widths as segments.
\<close>

record YearSegMeta =
  m_start :: int
  m_end :: int
  m_width :: int
  m_cum :: int

fun yearSegMetaFrom :: "int \<Rightarrow> int list \<Rightarrow> int \<Rightarrow> int list \<Rightarrow> YearSegMeta list" where
  "yearSegMetaFrom cum [] end perSegWidths = []"
| "yearSegMetaFrom cum (segStart # rest) end [] = []"
| "yearSegMetaFrom cum (segStart # rest) end (w # perSegWidths) =
     \<lparr>m_start = segStart,
      m_end = (case rest of [] \<Rightarrow> end | next_start # _ \<Rightarrow> next_start),
      m_width = w, m_cum = cum\<rparr>
     # yearSegMetaFrom (cum + w) rest end perSegWidths"

definition yearPixelTotal :: "YearSegMeta list \<Rightarrow> int" where
  "yearPixelTotal yearSegMeta =
     (if yearSegMeta = [] then 0 else m_cum (last yearSegMeta) + m_width (last yearSegMeta))"

text \<open>The loop of \<open>yearDateToPct\<close>: the first segment that ends after the date, or the last one.\<close>

fun scanYearSegMeta :: "int \<Rightarrow> int \<Rightarrow> YearSegMeta list \<Rightarrow> real" where
  "scanYearSegMeta pixelTotal d [] = - 1"
| "scanYearSegMeta pixelTotal d (m # rest) =
     (if d < m_end m \<or> rest = []
      then (let segDur = (if m_end m - m_start m = 0 then 1 else m_end m - m_start m);
                inSeg = min segDur (max 0 (d - m_start m));
                px = real_of_int (m_cum m)
                       + (real_of_int (m_width m) * real_of_int inSeg) / real_of_int segDur
            in (px / (if pixelTotal = 0 then 1 else real_of_int pixelTotal)) * 100)
      else scanYearSegMeta pixelTotal d rest)"

definition yearDateToPct :: "YearSegMeta list \<Rightarrow> int \<Rightarrow> int option \<Rightarrow> real" where
  "yearDateToPct yearSegMeta end date =
     (case date of
        None \<Rightarrow> - 1
      | Some d \<Rightarrow>
          if yearSegMeta = [] then - 1
          else if d < m_start (hd yearSegMeta) then 0
          else if d > end then - 1
          else scanYearSegMeta (yearPixelTotal yearSegMeta) d yearSegMeta)"

definition yearRangeToPct ::
  "YearSegMeta list \<Rightarrow> int \<Rightarrow> int option \<Rightarrow> int option \<Rightarrow> (real \<times> real) option" where
  "yearRangeToPct yearSegMeta end rowStart rowEnd =
     (case rowStart of
        None \<Rightarrow> None
      | Some s \<Rightarrow>
         (case rowEnd of
            None \<Rightarrow> None
          | Some e \<Rightarrow>
              if yearSegMeta = [] then None
              else if e < m_start (hd yearSegMeta) \<or> s > end then None
              else
                (let clipStart = (if s < m_start (hd yearSegMeta) then m_start (hd yearSegMeta) else s);
                     clipEnd = (if e > end then end else e)
                 in if clipEnd \<le> clipStart then None
                    else
                      (let left = yearDateToPct yearSegMeta end (Some clipStart);
                           right = yearDateToPct yearSegMeta end (Some clipEnd)
                       in if left < 0 \<or> right < 0 then None
                          else Some (left,
                                 max (right - left)
                                   ((2 / (if yearPixelTotal yearSegMeta = 0 then 1
                                          else real_of_int (yearPixelTotal yearSegMeta))) * 100))))))"

subsection \<open>The bar of a row and a whole drag\<close>

text \<open>
  The end date that the bar of a row shows: the override of an earlier drag, if the
  state holds one for the row, else the end date of the row
  (\<open>endDateOverrides[row.id] || row.endDate\<close>).  \<open>endDateOverrides\<close> is a plain
  object, as \<open>childrenMap\<close> is; the rows that the table draws are those returned by
  \<open>orderGanttRows\<close>, which raises a \<open>TypeError\<close> at a row whose id names a member of
  \<open>Object.prototype\<close>, so the lookup is that of a map for every row that is drawn.
\<close>

definition effectiveEnd :: "IGanttViewState \<Rightarrow> GanttRow \<Rightarrow> int option" where
  "effectiveEnd st row =
     (case endDateOverrides st (row_id row) of Some d \<Rightarrow> Some d | None \<Rightarrow> endDate row)"

text \<open>
  The left edge, the width and the live width of the bar, as the table body computes
  them for a row: by \<open>calculateStartX\<close> and \<open>calculateEndWidth\<close>, and in year zoom by
  \<open>yearRangeToPct\<close> when that returns a range.  \<open>containerPx\<close> is the measured width
  of the container and \<open>fixedWidth\<close> the width of the sticky columns.
\<close>

definition barOfRow ::
  "(int \<Rightarrow> string) \<Rightarrow> Props \<Rightarrow> ZoomLevel \<Rightarrow> int \<Rightarrow> int \<Rightarrow> IGanttViewState \<Rightarrow> GanttRow
     \<Rightarrow> real \<times> real \<times> real" where
  "barOfRow monthShort props zoomLevel containerPx fixedWidth st row =
     (let b = getTimelineBounds props;
          leftPct = calculateStartX props (startDate row);
          widthPct = calculateEndWidth props (startDate row) (effectiveEnd st row);
          yr = (if zoomLevel = ZoomYear
                then yearRangeToPct
                       (yearSegMetaFrom 0 (map seg_start (getSegments monthShort ZoomYear props))
                          (b_end b) (yearSegWidths monthShort props containerPx fixedWidth))
                       (b_end b) (startDate row) (effectiveEnd st row)
                else None);
          (leftPct, widthPct) = (case yr of Some (l, w) \<Rightarrow> (l, w) | None \<Rightarrow> (leftPct, widthPct));
          liveWidth = (case editingEnd st of
                         Some edit \<Rightarrow> if rowId edit = row_id row then liveWidthPct edit else widthPct
                       | None \<Rightarrow> widthPct)
      in (leftPct, widthPct, liveWidth))"

text \<open>
  The bar is drawn, and with it the handle at its end, only when neither the left edge
  nor the width is \<open>-1\<close> (\<open>leftPct != -1 && widthPct != -1\<close>).
\<close>

definition barDrawn ::
  "(int \<Rightarrow> string) \<Rightarrow> Props \<Rightarrow> ZoomLevel \<Rightarrow> int \<Rightarrow> int \<Rightarrow> IGanttViewState \<Rightarrow> GanttRow
     \<Rightarrow> bool" where
  "barDrawn monthShort props zoomLevel containerPx fixedWidth st row =
     (let (leftPct, widthPct, liveWidth) =
             barOfRow monthShort props zoomLevel containerPx fixedWidth st row
      in leftPct \<noteq> - 1 \<and> widthPct \<noteq> - 1)"

text \<open>
  A whole drag of the end handle of a row: press at \<open>x0\<close> in a timeline cell that is
  \<open>px\<close> pixels wide, one move to \<open>x1\<close>, release.  The handle is there only when the
  bar is drawn and \<open>adjustableEndDate\<close> is set; without a handle nothing happens.  The
  window of the drag is the axis.  The source divides the pixel delta by the width of
  the cell; the model follows it for a cell that is wider than 0.
\<close>

definition dragRowEnd ::
  "(int \<Rightarrow> string) \<Rightarrow> Props \<Rightarrow> ZoomLevel \<Rightarrow> int \<Rightarrow> int \<Rightarrow> bool \<Rightarrow> IGanttViewState
     \<Rightarrow> GanttRow \<Rightarrow> real \<Rightarrow> real \<Rightarrow> real \<Rightarrow> IGanttViewState \<times> (string \<times> int) list" where
  "dragRowEnd monthShort props zoomLevel containerPx fixedWidth hasCallback st row px x0 x1 =
     (let b = getTimelineBounds props;
          (leftPct, widthPct, liveWidth) =
             barOfRow monthShort props zoomLevel containerPx fixedWidth st row
      in if barDrawn monthShort props zoomLevel containerPx fixedWidth st row
         then (let st1 = startBarEndEdit True st x0 (row_id row) leftPct liveWidth
                           (b_start b) (b_end b) px;
                   st2 = onBarDragMove st1 x1
               in onGlobalMouseUp True hasCallback st2)
         else (st, []))"

text \<open>
  Example props: a project that ends in the last millisecond of June 2024, which
  is the axis end.
\<close>

definition fullSpanRow :: GanttRow where
  "fullSpanRow = mkRow ''a'' ''Alpha'' (Some 1704067200000) (Some 1719791999999) ''project'' []"

definition fullSpanProps :: Props where
  "fullSpanProps = \<lparr>data = [fullSpanRow], ganttStartDate = 0, ganttEndDate = 0\<rparr>"

definition idleState :: IGanttViewState where
  "idleState = \<lparr>editingEnd = None, endDateOverrides = Map.empty\<rparr>"

text \<open>
  The state after an earlier drag that has shortened row \<open>a\<close> to 15 March 2024.
\<close>

definition shortenedState :: IGanttViewState where
  "shortenedState = \<lparr>editingEnd = None, endDateOverrides = [''a'' \<mapsto> 1710460800000]\<rparr>"

text \<open>
  Example props: a project from 1 January 2024 to 31 January 2025 and a tender from
  1 January 2024 to 1 July 2024.
\<close>

definition shortTender :: GanttRow where
  "shortTender = mkRow ''b'' ''Beta'' (Some 1704067200000) (Some 1719792000000) ''tender'' []"

definition thirteenMonthProps :: Props where
  "thirteenMonthProps =
     \<lparr>data = [mkRow ''a'' ''Alpha'' (Some 1704067200000) (Some 1738281600000) ''project'' [],
              shortTender],
      ganttStartDate = 0, ganttEndDate = 0\<rparr>"

section \<open>Color resolution (\<open>index.ts\<close>, \<open>updateView\<close>)\<close>

text \<open>
  Strings are modelled over ASCII: white space is blank, tab, line feed, vertical
  tab, form feed and carriage return, and the case-insensitive flag of a regular
  expression folds the letters \<open>A\<close> to \<open>Z\<close>.
\<close>

definition isSpace :: "char \<Rightarrow> bool" where
  "isSpace c = (c \<in> set [CHR '' '', CHR 0x09, CHR 0x0A, CHR 0x0B, CHR 0x0C, CHR 0x0D])"

definition trim :: "string \<Rightarrow> string" where
  "trim s = rev (dropWhile isSpace (rev (dropWhile isSpace s)))"

definition isQuote :: "char \<Rightarrow> bool" where
  "isQuote c = (c = CHR 0x22 \<or> c = CHR 0x27)"

text \<open>\<open>s.replace(/^['"]|['"]$/g, "")\<close>: one quote off the front, then one off the end.\<close>

definition stripQuotes :: "string \<Rightarrow> string" where
  "stripQuotes s =
     (let s1 = (case s of c # cs \<Rightarrow> if isQuote c then cs else s | [] \<Rightarrow> [])
      in if s1 \<noteq> [] \<and> isQuote (last s1) then butlast s1 else s1)"

text \<open>\<open>s.split(re)\<close> for a regular expression that matches one character of a class.\<close>

fun splitOn :: "(char \<Rightarrow> bool) \<Rightarrow> string \<Rightarrow> string list" where
  "splitOn p [] = [[]]"
| "splitOn p (c # cs) =
     (if p c then [] # splitOn p cs
      else (case splitOn p cs of x # xs \<Rightarrow> (c # x) # xs | [] \<Rightarrow> [[c]]))"

fun joinWith :: "string \<Rightarrow> string list \<Rightarrow> string" where
  "joinWith sep [] = []"
| "joinWith sep [x] = x"
| "joinWith sep (x # y # r) = x @ sep @ joinWith sep (y # r)"

definition startsWithCI :: "string \<Rightarrow> string \<Rightarrow> bool" where
  "startsWithCI word s = (toLowerCase (take (length word) s) = word)"

text \<open>\<open>token.replace(/^(project|tender)\s*/i, "")\<close>\<close>

definition dropLeadingLabel :: "string \<Rightarrow> string" where
  "dropLeadingLabel token =
     (if startsWithCI ''project'' token then dropWhile isSpace (drop 7 token)
      else if startsWithCI ''tender'' token then dropWhile isSpace (drop 6 token)
      else token)"

definition isSeparator :: "char \<Rightarrow> bool" where
  "isSeparator c = (c \<in> set [CHR '','', CHR '';'', CHR 0x0A, CHR ''|''])"

definition isKeySep :: "char \<Rightarrow> bool" where
  "isKeySep c = (c = CHR '':'' \<or> c = CHR ''='')"

text \<open>The body of the loop over the parts: the cleaned token of one part.\<close>

definition cleanToken :: "string \<Rightarrow> string" where
  "cleanToken p =
     (let kv = splitOn isKeySep p;
          token = (if length kv \<ge> 2 then joinWith '':'' (tl kv) else p)
      in trim (dropLeadingLabel (trim (stripQuotes token))))"

text \<open>
  \<open>JSON.parse\<close> is the host's.  What the model fixes of it: a text whose first token
  after the opening bracket cannot start a JSON value, and is not the closing bracket,
  is a syntax error.  For any other text the parameter \<open>hostParse\<close> decides; it gives
  the elements of the parsed array as \<open>String(v)\<close> gives them, or \<open>None\<close> for a syntax
  error.
\<close>

definition jsonValueStart :: "char \<Rightarrow> bool" where
  "jsonValueStart c = (c \<in> set ''-0123456789[{tfn]'' \<or> c = CHR 0x22)"

definition jsonWhitespace :: "char \<Rightarrow> bool" where
  "jsonWhitespace c = (c \<in> set [CHR '' '', CHR 0x09, CHR 0x0A, CHR 0x0D])"

definition parseJsonArray :: "(string \<Rightarrow> string list option) \<Rightarrow> string \<Rightarrow> string list option" where
  "parseJsonArray hostParse val =
     (case dropWhile jsonWhitespace (tl val) of
        [] \<Rightarrow> None
      | c # _ \<Rightarrow> if jsonValueStart c then hostParse val else None)"

text \<open>\<open>s.substring(a, b)\<close>: the indices are clamped and swapped when out of order.\<close>

definition substring :: "nat \<Rightarrow> nat \<Rightarrow> string \<Rightarrow> string" where
  "substring a b s =
     (let a' = min a (length s); b' = min b (length s)
      in take (max a' b' - min a' b') (drop (min a' b') s))"

definition parseColors :: "(string \<Rightarrow> string list option) \<Rightarrow> string option \<Rightarrow> string list" where
  "parseColors hostParse input =
     (case input of
        None \<Rightarrow> []
      | Some inp \<Rightarrow>
          if inp = [] then []
          else
            (let val0 = trim inp;
                 val1 = (if (val0 \<noteq> [] \<and> hd val0 = CHR 0x22 \<and> last val0 = CHR 0x22) \<or>
                            (val0 \<noteq> [] \<and> hd val0 = CHR 0x27 \<and> last val0 = CHR 0x27)
                         then trim (substring 1 (length val0 - 1) val0)
                         else val0);
                 manual = (\<lambda>val.
                    filter (\<lambda>t. t \<noteq> [])
                      (map cleanToken
                         (filter (\<lambda>s. s \<noteq> []) (map trim (splitOn isSeparator val)))))
             in if val1 \<noteq> [] \<and> hd val1 = CHR ''[''
                then (case parseJsonArray hostParse val1 of
                        Some arr \<Rightarrow> map stripQuotes (filter (\<lambda>v. v \<noteq> []) (map trim arr))
                      | None \<Rightarrow>
                          manual (filter (\<lambda>c. c \<noteq> CHR ''['' \<and> c \<noteq> CHR '']'' \<and> c \<noteq> CHR 0x22) val1))
                else manual val1))"

text \<open>
  One attempt of the regular expression \<open>label\s*[:=]\s*([^,;\n|]+)\<close> at the head of
  a text, giving the captured group.  When nothing but separators follows the white
  space after the key separator, the match backtracks and captures the last white
  space character that is not a line feed.
\<close>

definition matchLabelAt :: "string \<Rightarrow> string \<Rightarrow> string option" where
  "matchLabelAt label s =
     (if startsWithCI label s
      then (case dropWhile isSpace (drop (length label) s) of
              [] \<Rightarrow> None
            | c # r2 \<Rightarrow>
                if isKeySep c
                then (let ws = takeWhile isSpace r2;
                          cap = takeWhile (\<lambda>c. \<not> isSeparator c) (dropWhile isSpace r2)
                      in if cap \<noteq> [] then Some cap
                         else (case filter (\<lambda>c. c \<noteq> CHR 0x0A) ws of
                                 [] \<Rightarrow> None
                               | x # xs \<Rightarrow> Some [last (x # xs)]))
                else None)
      else None)"

text \<open>\<open>exec\<close>: the first position of the text where the expression matches.\<close>

fun searchLabel :: "string \<Rightarrow> string \<Rightarrow> string option" where
  "searchLabel label [] = matchLabelAt label []"
| "searchLabel label (c # cs) =
     (case matchLabelAt label (c # cs) of
        Some cap \<Rightarrow> Some cap
      | None \<Rightarrow> searchLabel label cs)"

definition extractLabel :: "string option \<Rightarrow> string \<Rightarrow> string option" where
  "extractLabel src label =
     (case src of
        None \<Rightarrow> None
      | Some s \<Rightarrow>
          if s = [] then None
          else (case searchLabel label s of
                  None \<Rightarrow> None
                | Some cap \<Rightarrow> Some (trim (stripQuotes cap))))"

text \<open>
  \<open>a || b\<close> and \<open>!a\<close> on optional strings: the empty string and \<open>undefined\<close> are
  falsy.
\<close>

definition orElse :: "string option \<Rightarrow> string option \<Rightarrow> string option" where
  "orElse a b = (case a of Some s \<Rightarrow> if s \<noteq> [] then Some s else b | None \<Rightarrow> b)"

definition orDefault :: "string option \<Rightarrow> string \<Rightarrow> string" where
  "orDefault a d = (case a of Some s \<Rightarrow> if s \<noteq> [] then s else d | None \<Rightarrow> d)"

definition truthy :: "string option \<Rightarrow> bool" where
  "truthy a = (case a of Some s \<Rightarrow> s \<noteq> [] | None \<Rightarrow> False)"

text \<open>
  The color mapping of \<open>updateView\<close>.  \<open>colorsValue\<close> is the control property;
  \<open>datasetColors\<close> is the formatted \<open>colors\<close> value of the first record, \<open>None\<close> when
  there is no record or reading it fails.
\<close>

definition resolveColors ::
  "(string \<Rightarrow> string list option) \<Rightarrow> string option \<Rightarrow> string option \<Rightarrow> string list" where
  "resolveColors hostParse colorsValue datasetColors =
     (let colors0 = parseColors hostParse colorsValue;
          labeledProject = extractLabel colorsValue ''project'';
          labeledTender = extractLabel colorsValue ''tender'';
          colors1 = (if length colors0 = 0 \<and> truthy datasetColors
                     then parseColors hostParse datasetColors else colors0);
          colors2 = (if length colors1 = 0 \<and> \<not> truthy labeledProject \<and> \<not> truthy labeledTender
                     then [''#FFB74D'', ''#90CAF9''] else colors1);
          projectColorFinal =
            orDefault (orElse labeledProject (case colors2 of [] \<Rightarrow> None | c # _ \<Rightarrow> Some c))
              ''#FFB74D'';
          tenderColorFinal =
            orDefault (orElse labeledTender (find (\<lambda>c. c \<noteq> projectColorFinal) colors2))
              ''#90CAF9''
      in [projectColorFinal, tenderColorFinal]
           @ filter (\<lambda>c. c \<noteq> projectColorFinal \<and> c \<noteq> tenderColorFinal) colors2)"

section \<open>Properties of the hierarchy ordering\<close>

lemma set_insertRow: "set (insertRow c x ys) = insert x (set ys)"
  by (induction ys) auto

lemma set_sortList: "set (sortList c xs) = set xs"
  by (induction xs) (simp_all add: sortList_def set_insertRow)

lemma entries_indexChildren:
  "indexChildren rs m = Inr m' \<Longrightarrow>
     entries m' k = entries m k @ filter (\<lambda>r. parentId r = k) rs"
proof (induction rs arbitrary: m)
  case Nil
  then show ?case by simp
next
  case (Cons r rs)
  from Cons.prems have notin: "parentId r \<notin> set objectPrototypeKeys"
    and rec: "indexChildren rs (m(parentId r \<mapsto> entries m (parentId r) @ [r])) = Inr m'"
    by (auto simp: Let_def split: if_splits)
  from Cons.IH [OF rec] show ?case
    by (auto simp: entries_def)
qed

lemma entries_empty: "entries Map.empty k = []"
  by (simp add: entries_def)

lemma collect_map_Inr:
  "collect (map f ks) = Inr ys \<Longrightarrow>
     \<exists>zss. list_all2 (\<lambda>k zs. f k = Inr zs) ks zss \<and> ys = concat zss"
proof (induction ks arbitrary: ys)
  case Nil
  then show ?case by simp
next
  case (Cons k ks)
  then obtain xs where fk: "f k = Inr xs"
    by (cases "f k") auto
  with Cons.prems obtain ys' where c: "collect (map f ks) = Inr ys'" and ys: "ys = xs @ ys'"
    by (auto split: sum.splits)
  from Cons.IH [OF c] obtain zss where "list_all2 (\<lambda>k zs. f k = Inr zs) ks zss" "ys' = concat zss"
    by blast
  with fk ys have "list_all2 (\<lambda>k zs. f k = Inr zs) (k # ks) (xs # zss) \<and> ys = concat (xs # zss)"
    by simp
  then show ?case by blast
qed

lemma process_cases:
  assumes "process n c m row lvl = Inr xs"
  obtains k zss where "n = Suc k"
    and "row_id row \<notin> set objectPrototypeKeys"
    and "list_all2 (\<lambda>child zs. process k c m child (lvl + 1) = Inr zs)
           (sortList c (filter (\<lambda>k. \<not> isMilestone k) (entries m (row_id row)))) zss"
    and "xs = annotate row lvl (filter isMilestone (entries m (row_id row))) # concat zss"
proof (cases n)
  case 0
  with assms show ?thesis by simp
next
  case (Suc k)
  with assms have notin: "row_id row \<notin> set objectPrototypeKeys"
    by (auto simp: kidsOf_def split: if_splits)
  with assms Suc obtain rest where
    c: "collect (map (\<lambda>child. process k c m child (lvl + 1))
            (sortList c (filter (\<lambda>k. \<not> isMilestone k) (entries m (row_id row))))) = Inr rest"
    and xs: "xs = annotate row lvl (filter isMilestone (entries m (row_id row))) # rest"
    by (auto simp: kidsOf_def Let_def split: sum.splits)
  from collect_map_Inr [OF c] xs Suc notin that show ?thesis
    by blast
qed

text \<open>Induction over a successful run of \<open>process\<close>.\<close>

lemma process_Inr_induct [consumes 1, case_names step]:
  assumes run: "process n c m row lvl = Inr xs"
    and step: "\<And>row lvl zss.
       row_id row \<notin> set objectPrototypeKeys \<Longrightarrow>
       list_all2 (\<lambda>child zs. Q child (lvl + 1) zs)
         (sortList c (filter (\<lambda>k. \<not> isMilestone k) (entries m (row_id row)))) zss \<Longrightarrow>
       Q row lvl (annotate row lvl (filter isMilestone (entries m (row_id row))) # concat zss)"
  shows "Q row lvl xs"
  using run
proof (induction n arbitrary: row lvl xs)
  case 0
  then show ?case by simp
next
  case (Suc n)
  from Suc.prems obtain k zss where k: "Suc n = Suc k"
    and notin: "row_id row \<notin> set objectPrototypeKeys"
    and all: "list_all2 (\<lambda>child zs. process k c m child (lvl + 1) = Inr zs)
           (sortList c (filter (\<lambda>k. \<not> isMilestone k) (entries m (row_id row)))) zss"
    and xs: "xs = annotate row lvl (filter isMilestone (entries m (row_id row))) # concat zss"
    by (rule process_cases)
  from k have "k = n" by simp
  with all Suc.IH have "list_all2 (\<lambda>child zs. Q child (lvl + 1) zs)
           (sortList c (filter (\<lambda>k. \<not> isMilestone k) (entries m (row_id row)))) zss"
    by (auto elim!: list_all2_mono)
  from step [OF notin this] xs show ?case by simp
qed

lemma list_all2_right:
  "list_all2 P xs ys \<Longrightarrow> y \<in> set ys \<Longrightarrow> \<exists>x\<in>set xs. P x y"
  by (induction rule: list_all2_induct) auto

lemma list_all2_left:
  "list_all2 P xs ys \<Longrightarrow> x \<in> set xs \<Longrightarrow> \<exists>y\<in>set ys. P x y"
  by (induction rule: list_all2_induct) auto

lemma orderGanttRows_cases:
  assumes "orderGanttRows stack lc sf sd props_data = Inr res"
  obtains m zss where
    "entries m = (\<lambda>k. filter (\<lambda>r. parentId r = k) (liveRows props_data))"
    and "list_all2 (\<lambda>r zs. process stack (compare lc sf sd) m r 0 = Inr zs)
           (sortList (compare lc sf sd) (filter (\<lambda>r. \<not> isMilestone r) (entries m []))) zss"
    and "res = concat zss"
proof -
  let ?data = "liveRows props_data"
  from assms obtain m where m: "indexChildren ?data Map.empty = Inr m"
    by (cases "indexChildren ?data Map.empty") (auto simp: orderGanttRows_def liveRows_def)
  with assms have c: "collect (map (\<lambda>r. process stack (compare lc sf sd) m r 0)
       (sortList (compare lc sf sd) (filter (\<lambda>r. \<not> isMilestone r) (entries m [])))) = Inr res"
    by (simp add: orderGanttRows_def Let_def liveRows_def)
  have e: "entries m = (\<lambda>k. filter (\<lambda>r. parentId r = k) ?data)"
    using entries_indexChildren [OF m] by (simp add: entries_empty fun_eq_iff)
  from collect_map_Inr [OF c] e that show ?thesis
    by blast
qed

lemma annotate_sel [simp]:
  "row_id (annotate r l ms) = row_id r" "name (annotate r l ms) = name r"
  "startDate (annotate r l ms) = startDate r" "endDate (annotate r l ms) = endDate r"
  "rowType (annotate r l ms) = rowType r" "parentId (annotate r l ms) = parentId r"
  "level (annotate r l ms) = Some l" "milestones (annotate r l ms) = ms"
  "sourceId (annotate r l ms) = sourceId r" "assigned (annotate r l ms) = assigned r"
  by (simp_all add: annotate_def)

lemma isMilestone_annotate [simp]: "isMilestone (annotate r l ms) = isMilestone r"
  by (simp add: isMilestone_def)

lemma process_pushed:
  assumes "process n c m row lvl = Inr xs" and "x \<in> set xs"
  shows "\<exists>r. pushed m r x \<and> (r = row \<or> (\<exists>k. r \<in> set (entries m k) \<and> \<not> isMilestone r))"
proof -
  let ?Q = "\<lambda>row (lvl::nat) xs. \<forall>x\<in>set xs. \<exists>r. pushed m r x \<and> (r = row \<or> (\<exists>k. r \<in> set (entries m k) \<and> \<not> isMilestone r))"
  from assms(1) have "?Q row lvl xs"
  proof (induction rule: process_Inr_induct)
    case (step row lvl zss)
    show ?case
    proof
      fix x assume "x \<in> set (annotate row lvl (filter isMilestone (entries m (row_id row))) # concat zss)"
      then consider "x = annotate row lvl (filter isMilestone (entries m (row_id row)))"
        | zs where "zs \<in> set zss" "x \<in> set zs" by auto
      then show "\<exists>r. pushed m r x \<and> (r = row \<or> (\<exists>k. r \<in> set (entries m k) \<and> \<not> isMilestone r))"
      proof cases
        case 1
        then show ?thesis by (auto simp: pushed_def)
      next
        case 2
        from 2(1) step(2) obtain child where
          ch: "child \<in> set (sortList c (filter (\<lambda>k. \<not> isMilestone k) (entries m (row_id row))))"
          and q: "?Q child (lvl + 1) zs"
          using list_all2_right [OF step(2)] by blast
        from ch have "child \<in> set (entries m (row_id row))" "\<not> isMilestone child"
          by (auto simp: set_sortList)
        with q 2(2) show ?thesis by blast
      qed
    qed
  qed
  with assms(2) show ?thesis by blast
qed

lemma process_head:
  assumes "process n c m row lvl = Inr xs"
  shows "\<exists>rest. xs = annotate row lvl (filter isMilestone (entries m (row_id row))) # rest"
  using assms by (rule process_cases) simp


lemma order_pushed:
  assumes "orderGanttRows stack lc sf sd props_data = Inr res" and "x \<in> set res"
  shows "\<exists>r\<in>set (liveRows props_data). \<not> isMilestone r \<and>
           (\<exists>l. x = annotate r l (milestonesOf props_data r))"
proof -
  from assms(1) obtain m zss where
    e: "entries m = (\<lambda>k. filter (\<lambda>r. parentId r = k) (liveRows props_data))"
    and all: "list_all2 (\<lambda>r zs. process stack (compare lc sf sd) m r 0 = Inr zs)
           (sortList (compare lc sf sd) (filter (\<lambda>r. \<not> isMilestone r) (entries m []))) zss"
    and res: "res = concat zss"
    by (rule orderGanttRows_cases)
  from assms(2) res obtain zs where zs: "zs \<in> set zss" "x \<in> set zs" by auto
  from list_all2_right [OF all zs(1)] obtain root where
    root: "root \<in> set (entries m [])" "\<not> isMilestone root"
    and run: "process stack (compare lc sf sd) m root 0 = Inr zs"
    by (auto simp: set_sortList)
  from process_pushed [OF run zs(2)] obtain r where
    r: "pushed m r x" "r = root \<or> (\<exists>k. r \<in> set (entries m k) \<and> \<not> isMilestone r)"
    by blast
  from r(2) root have "r \<in> set (liveRows props_data)" "\<not> isMilestone r"
    by (auto simp: e)
  with r(1) show ?thesis
    by (auto simp: pushed_def milestonesOf_def e)
qed

lemma order_root:
  assumes "orderGanttRows stack lc sf sd props_data = Inr res"
    and "r \<in> set (liveRows props_data)" "parentId r = []" "\<not> isMilestone r"
  shows "annotate r 0 (milestonesOf props_data r) \<in> set res"
proof -
  from assms(1) obtain m zss where
    e: "entries m = (\<lambda>k. filter (\<lambda>r. parentId r = k) (liveRows props_data))"
    and all: "list_all2 (\<lambda>r zs. process stack (compare lc sf sd) m r 0 = Inr zs)
           (sortList (compare lc sf sd) (filter (\<lambda>r. \<not> isMilestone r) (entries m []))) zss"
    and res: "res = concat zss"
    by (rule orderGanttRows_cases)
  from assms(2-4) have "r \<in> set (sortList (compare lc sf sd) (filter (\<lambda>r. \<not> isMilestone r) (entries m [])))"
    by (simp add: set_sortList e)
  from list_all2_left [OF all this] obtain zs where
    zs: "zs \<in> set zss" "process stack (compare lc sf sd) m r 0 = Inr zs" by blast
  from process_head [OF zs(2)]
  have "annotate r 0 (milestonesOf props_data r) \<in> set zs"
    by (auto simp: milestonesOf_def e)
  with zs(1) res show ?thesis by auto
qed


subsection \<open>The sentinel filter\<close>

lemma sentinelData_run:
  "orderGanttRows 3 codeUnitOrder SortName Asc sentinelData =
     Inr [GanttRow ''2'' None ''Val'' None None None (Some ''project'') [] (Some 0) [],
          GanttRow ''4'' None '' val '' None None None (Some ''project'') ''2'' (Some 1) [],
          GanttRow ''3'' None ''VAL'' None None None (Some ''tender'') [] (Some 0) []]"
  by code_simp



subsection \<open>Parents first, levels\<close>

lemma parentsFirst_mono: "parentsFirst S xs \<Longrightarrow> S \<subseteq> T \<Longrightarrow> parentsFirst T xs"
proof (induction xs arbitrary: S T)
  case Nil
  then show ?case by simp
next
  case (Cons x xs)
  from Cons.prems have "parentsFirst (insert (row_id x) S) xs" "insert (row_id x) S \<subseteq> insert (row_id x) T"
    by auto
  from Cons.IH [OF this] Cons.prems show ?case by auto
qed

lemma parentsFirst_append:
  "parentsFirst S xs \<Longrightarrow> parentsFirst S ys \<Longrightarrow> parentsFirst S (xs @ ys)"
proof (induction xs arbitrary: S)
  case Nil
  then show ?case by simp
next
  case (Cons x xs)
  from Cons.prems(2) have "parentsFirst (insert (row_id x) S) ys"
    by (rule parentsFirst_mono) auto
  with Cons show ?case by simp
qed

lemma parentsFirst_concat:
  "\<forall>zs\<in>set zss. parentsFirst S zs \<Longrightarrow> parentsFirst S (concat zss)"
  by (induction zss) (simp_all add: parentsFirst_append)

lemma parentsFirst_excludes:
  "parentsFirst S xs \<Longrightarrow> p \<notin> S \<Longrightarrow> \<forall>x\<in>set xs. row_id x = p \<longrightarrow> parentId x = p \<Longrightarrow>
     \<forall>x\<in>set xs. parentId x \<noteq> p"
proof (induction xs arbitrary: S)
  case Nil
  then show ?case by simp
next
  case (Cons x xs)
  from Cons.prems have px: "parentId x \<in> S" and rest: "parentsFirst (insert (row_id x) S) xs"
    by simp_all
  from px Cons.prems(2) have "parentId x \<noteq> p" by auto
  moreover from this Cons.prems(3) have "row_id x \<noteq> p" by auto
  with Cons.prems(2) have "p \<notin> insert (row_id x) S" by simp
  from Cons.IH [OF rest this] Cons.prems(3) have "\<forall>x\<in>set xs. parentId x \<noteq> p" by simp
  ultimately show ?case by simp
qed

lemma process_parentsFirst:
  assumes "process n c m row lvl = Inr xs"
    and m: "\<forall>k. \<forall>r\<in>set (entries m k). parentId r = k"
  shows "parentsFirst {parentId row} xs"
  using assms(1)
proof (induction rule: process_Inr_induct)
  case (step row lvl zss)
  have "parentsFirst {parentId row, row_id row} zs" if "zs \<in> set zss" for zs
  proof -
    from list_all2_right [OF step(2) that] obtain child where
      ch: "child \<in> set (entries m (row_id row))" and pf: "parentsFirst {parentId child} zs"
      by (auto simp: set_sortList)
    from ch m have "parentId child = row_id row" by blast
    with pf show ?thesis by (auto intro: parentsFirst_mono)
  qed
  then have "parentsFirst {parentId row, row_id row} (concat zss)"
    by (simp add: parentsFirst_concat)
  then show ?case by (simp add: insert_commute)
qed

lemma order_parentsFirst:
  assumes "orderGanttRows stack lc sf sd props_data = Inr res"
  shows "parentsFirst {[]} res"
proof -
  from assms(1) obtain m zss where
    e: "entries m = (\<lambda>k. filter (\<lambda>r. parentId r = k) (liveRows props_data))"
    and all: "list_all2 (\<lambda>r zs. process stack (compare lc sf sd) m r 0 = Inr zs)
           (sortList (compare lc sf sd) (filter (\<lambda>r. \<not> isMilestone r) (entries m []))) zss"
    and res: "res = concat zss"
    by (rule orderGanttRows_cases)
  have m: "\<forall>k. \<forall>r\<in>set (entries m k). parentId r = k" by (simp add: e)
  have "parentsFirst {[]} zs" if "zs \<in> set zss" for zs
  proof -
    from list_all2_right [OF all that] obtain root where
      root: "root \<in> set (entries m [])" and run: "process stack (compare lc sf sd) m root 0 = Inr zs"
      by (auto simp: set_sortList)
    from root m have "parentId root = []" by blast
    with process_parentsFirst [OF run m] show ?thesis by simp
  qed
  with res show ?thesis by (simp add: parentsFirst_concat)
qed

lemma process_levels:
  assumes "process n c m row lvl = Inr xs"
  shows "\<forall>x\<in>set xs. \<exists>l\<ge>lvl. level x = Some l"
  using assms
proof (induction rule: process_Inr_induct)
  case (step row lvl zss)
  have "\<exists>l\<ge>lvl. level x = Some l" if "zs \<in> set zss" "x \<in> set zs" for zs x
  proof -
    from list_all2_right [OF step(2) that(1)] that(2) obtain l where "l \<ge> lvl + 1" "level x = Some l"
      by blast
    then show ?thesis by auto
  qed
  then show ?case by auto
qed

lemma process_tail_levels:
  assumes "process n c m row lvl = Inr xs"
  shows "\<exists>rest. xs = annotate row lvl (filter isMilestone (entries m (row_id row))) # rest \<and>
           (\<forall>x\<in>set rest. \<exists>l>lvl. level x = Some l)"
  using assms
proof (rule process_cases)
  fix k zss
  assume all: "list_all2 (\<lambda>child zs. process k c m child (lvl + 1) = Inr zs)
           (sortList c (filter (\<lambda>k. \<not> isMilestone k) (entries m (row_id row)))) zss"
    and xs: "xs = annotate row lvl (filter isMilestone (entries m (row_id row))) # concat zss"
  have "\<exists>l>lvl. level x = Some l" if "zs \<in> set zss" "x \<in> set zs" for zs x
  proof -
    from list_all2_right [OF all that(1)] obtain child where
      "process k c m child (lvl + 1) = Inr zs" by blast
    from process_levels [OF this] that(2) obtain l where "l \<ge> lvl + 1" "level x = Some l"
      by blast
    then show ?thesis by auto
  qed
  with xs show ?thesis by auto
qed

lemma order_level0:
  assumes "orderGanttRows stack lc sf sd props_data = Inr res"
    and "x \<in> set res" "level x = Some 0"
  shows "\<exists>r\<in>set (liveRows props_data). parentId r = [] \<and> \<not> isMilestone r \<and>
           x = annotate r 0 (milestonesOf props_data r)"
proof -
  from assms(1) obtain m zss where
    e: "entries m = (\<lambda>k. filter (\<lambda>r. parentId r = k) (liveRows props_data))"
    and all: "list_all2 (\<lambda>r zs. process stack (compare lc sf sd) m r 0 = Inr zs)
           (sortList (compare lc sf sd) (filter (\<lambda>r. \<not> isMilestone r) (entries m []))) zss"
    and res: "res = concat zss"
    by (rule orderGanttRows_cases)
  from assms(2) res obtain zs where zs: "zs \<in> set zss" "x \<in> set zs" by auto
  from list_all2_right [OF all zs(1)] obtain root where
    root: "root \<in> set (entries m [])" "\<not> isMilestone root"
    and run: "process stack (compare lc sf sd) m root 0 = Inr zs"
    by (auto simp: set_sortList)
  from process_tail_levels [OF run] obtain rest where
    rest: "zs = annotate root 0 (filter isMilestone (entries m (row_id root))) # rest"
      "\<forall>x\<in>set rest. \<exists>l>0. level x = Some l" by blast
  with zs(2) assms(3) have "x = annotate root 0 (filter isMilestone (entries m (row_id root)))"
    by auto
  with root show ?thesis
    by (auto simp: e milestonesOf_def)
qed

subsection \<open>Orphans and roots\<close>

lemma orphanData_run:
  "orderGanttRows 3 codeUnitOrder SortName Asc orphanData =
     Inr [GanttRow ''a'' None ''Alpha'' None None None (Some ''project'') [] (Some 0) [],
          GanttRow ''c'' None ''Gamma'' None None None (Some ''tender'') ''a'' (Some 1) []]"
  by code_simp

text \<open>
  Claim C4 says that the roots of the returned ordering are exactly the non-milestone
  rows with empty \<open>parentId\<close>.  The filter of the function's first line removes the
  rows named \<open>val\<close> before the roots are read: here row \<open>1\<close> is a project with
  empty \<open>parentId\<close>, and it is not among the ids of the returned rows.
\<close>

theorem root_named_val_counterexample:
  "orderGanttRows 3 codeUnitOrder SortName Asc sentinelData =
     Inr [GanttRow ''2'' None ''Val'' None None None (Some ''project'') [] (Some 0) [],
          GanttRow ''4'' None '' val '' None None None (Some ''project'') ''2'' (Some 1) [],
          GanttRow ''3'' None ''VAL'' None None None (Some ''tender'') [] (Some 0) []]
   \<and> mkRow ''1'' ''val'' None None ''project'' [] \<in> set sentinelData
   \<and> \<not> isMilestone (mkRow ''1'' ''val'' None None ''project'' [])
   \<and> parentId (mkRow ''1'' ''val'' None None ''project'' []) = []
   \<and> row_id (mkRow ''1'' ''val'' None None ''project'' [])
       \<notin> set (map row_id
           [GanttRow ''2'' None ''Val'' None None None (Some ''project'') [] (Some 0) [],
            GanttRow ''4'' None '' val '' None None None (Some ''project'') ''2'' (Some 1) [],
            GanttRow ''3'' None ''VAL'' None None None (Some ''tender'') [] (Some 0) []])"
  using sentinelData_run
  by (simp add: sentinelData_def mkRow_def isMilestone_def toLowerCase_def lowerChar_def)

text \<open>
  Claim C4, amended.  A task row whose non-empty \<open>parentId\<close> is the id of no other
  row of the dataset is absent from the sequence returned by \<open>orderGanttRows\<close>, and
  the rows at level 0 of that sequence are exactly the task rows with empty
  \<open>parentId\<close> whose name is not the placeholder \<open>val\<close> (\<open>liveRows\<close>, the rows that
  pass the filter of the first line), each with its milestone children attached.
\<close>

theorem orphans_dropped_roots_exact:
  assumes "orderGanttRows stack lc sortField sortDir props_data = Inr res"
  shows "(\<forall>r\<in>set props_data.
            \<not> isMilestone r \<and> parentId r \<noteq> [] \<and>
            (\<forall>q\<in>set props_data. row_id q = parentId r \<longrightarrow> q = r) \<longrightarrow> \<not> rendered res r)
       \<and> (\<forall>x. x \<in> set res \<and> level x = Some 0 \<longleftrightarrow>
            (\<exists>r\<in>set (liveRows props_data). parentId r = [] \<and> \<not> isMilestone r \<and>
               x = annotate r 0 (milestonesOf props_data r)))"
proof -
  have orphan: "\<not> rendered res r"
    if r: "r \<in> set props_data" "parentId r \<noteq> []"
      "\<forall>q\<in>set props_data. row_id q = parentId r \<longrightarrow> q = r" for r
  proof
    assume "rendered res r"
    then obtain x l ms where x: "x \<in> set res" "x = annotate r l ms"
      by (auto simp: rendered_def)
    have own: "parentId y = parentId r" if y: "y \<in> set res" "row_id y = parentId r" for y
    proof -
      from order_pushed [OF assms y(1)] obtain q l' where
        q: "q \<in> set (liveRows props_data)" "y = annotate q l' (milestonesOf props_data q)"
        by blast
      from q(1) have "q \<in> set props_data" by (simp add: liveRows_def)
      moreover from q(2) y(2) have "row_id q = parentId r" by simp
      ultimately have "q = r" using r(3) by blast
      with q(2) show ?thesis by simp
    qed
    from r(2) have "parentId r \<notin> {[]}" by simp
    from parentsFirst_excludes [OF order_parentsFirst [OF assms] this] own
    have "\<forall>y\<in>set res. parentId y \<noteq> parentId r" by blast
    with x(1) have "parentId x \<noteq> parentId r" by blast
    with x(2) show False by simp
  qed
  have roots: "x \<in> set res \<and> level x = Some 0 \<longleftrightarrow>
            (\<exists>r\<in>set (liveRows props_data). parentId r = [] \<and> \<not> isMilestone r \<and>
               x = annotate r 0 (milestonesOf props_data r))" for x
    using order_level0 [OF assms, of x] order_root [OF assms] by auto
  from orphan roots show ?thesis by blast
qed

theorem orphans_dropped_roots_exact_witness:
  "orderGanttRows 3 codeUnitOrder SortName Asc orphanData =
     Inr [GanttRow ''a'' None ''Alpha'' None None None (Some ''project'') [] (Some 0) [],
          GanttRow ''c'' None ''Gamma'' None None None (Some ''tender'') ''a'' (Some 1) []]
   \<and> \<not> rendered [GanttRow ''a'' None ''Alpha'' None None None (Some ''project'') [] (Some 0) [],
          GanttRow ''c'' None ''Gamma'' None None None (Some ''tender'') ''a'' (Some 1) []]
        (mkRow ''b'' ''Beta'' None None ''project'' ''zzz'')
   \<and> annotate (mkRow ''a'' ''Alpha'' None None ''project'' []) 0
        (milestonesOf orphanData (mkRow ''a'' ''Alpha'' None None ''project'' []))
      \<in> set [GanttRow ''a'' None ''Alpha'' None None None (Some ''project'') [] (Some 0) [],
          GanttRow ''c'' None ''Gamma'' None None None (Some ''tender'') ''a'' (Some 1) []]"
proof -
  let ?res = "[GanttRow ''a'' None ''Alpha'' None None None (Some ''project'') [] (Some 0) [],
          GanttRow ''c'' None ''Gamma'' None None None (Some ''tender'') ''a'' (Some 1) []]"
  let ?a = "mkRow ''a'' ''Alpha'' None None ''project'' []"
  let ?b = "mkRow ''b'' ''Beta'' None None ''project'' ''zzz''"
  have run: "orderGanttRows 3 codeUnitOrder SortName Asc orphanData = Inr ?res"
    by (rule orphanData_run)
  have b: "?b \<in> set orphanData" "\<not> isMilestone ?b" "parentId ?b \<noteq> []"
    "\<forall>q\<in>set orphanData. row_id q = parentId ?b \<longrightarrow> q = ?b"
    by (simp_all add: orphanData_def mkRow_def isMilestone_def toLowerCase_def lowerChar_def)
  have a: "?a \<in> set (liveRows orphanData)" "parentId ?a = []" "\<not> isMilestone ?a"
    by (simp_all add: orphanData_def liveRows_def mkRow_def isMilestone_def toLowerCase_def lowerChar_def)
  from orphans_dropped_roots_exact [OF run] have
    1: "\<not> isMilestone ?b \<and> parentId ?b \<noteq> [] \<and>
        (\<forall>q\<in>set orphanData. row_id q = parentId ?b \<longrightarrow> q = ?b) \<longrightarrow> \<not> rendered ?res ?b"
    and 2: "annotate ?a 0 (milestonesOf orphanData ?a) \<in> set ?res"
    using a b(1) by blast+
  from 1 b have "\<not> rendered ?res ?b" by blast
  with 2 run show ?thesis by blast
qed

subsection \<open>Milestones\<close>

lemma droppedParentData_run:
  "orderGanttRows 3 codeUnitOrder SortName Asc droppedParentData = Inr []"
  by code_simp

text \<open>
  Claim C3 says that a milestone is attached exactly once whenever its \<open>parentId\<close> is
  the id of an existing task row.  It is not so when that task row is itself absent
  from the result: here the project \<open>p\<close> has a dangling parent, nothing is returned,
  and the milestone \<open>m\<close> of \<open>p\<close> is attached nowhere.
\<close>

theorem milestone_of_dropped_parent_counterexample:
  "orderGanttRows 3 codeUnitOrder SortName Asc droppedParentData = Inr []
   \<and> mkRow ''p'' ''Plan'' None None ''project'' ''zzz'' \<in> set droppedParentData
   \<and> \<not> isMilestone (mkRow ''p'' ''Plan'' None None ''project'' ''zzz'')
   \<and> mkRow ''m'' ''Kickoff'' (Some 5) (Some 5) ''milestone'' ''p'' \<in> set droppedParentData
   \<and> isMilestone (mkRow ''m'' ''Kickoff'' (Some 5) (Some 5) ''milestone'' ''p'')
   \<and> parentId (mkRow ''m'' ''Kickoff'' (Some 5) (Some 5) ''milestone'' ''p'')
       = row_id (mkRow ''p'' ''Plan'' None None ''project'' ''zzz'')"
  using droppedParentData_run
  by (simp add: droppedParentData_def mkRow_def isMilestone_def toLowerCase_def lowerChar_def)

lemma count_list_filter:
  "count_list (filter P xs) r = (if P r then count_list xs r else 0)"
  by (induction xs) auto

lemma milestoneData_run:
  "orderGanttRows 3 codeUnitOrder SortName Asc milestoneData =
     Inr [GanttRow ''p'' None ''Plan'' None (Some 1) (Some 9) (Some ''project'') [] (Some 0)
            [GanttRow ''m'' None ''Kickoff'' None (Some 5) (Some 5) (Some ''Milestone'') ''p'' None []]]"
  by code_simp

text \<open>
  Claim C3, amended.  No milestone row is an element of the sequence returned by
  \<open>orderGanttRows\<close>.  A milestone row occurs in the \<open>milestones\<close> list of a returned
  row exactly when its \<open>parentId\<close> is that returned row's id (and it passed the
  sentinel filter), and then as often as it occurs in the dataset, that is exactly
  once; in the list of any other returned row it does not occur.  So a milestone
  with an empty \<open>parentId\<close>, or whose parent is not among the returned rows, is dropped.
\<close>

theorem milestones_attached_to_returned_parent:
  assumes "orderGanttRows stack lc sortField sortDir props_data = Inr res"
  shows "(\<forall>x\<in>set res. \<not> isMilestone x)
       \<and> (\<forall>x\<in>set res. \<forall>r.
            count_list (milestones x) r =
              (if isMilestone r \<and> parentId r = row_id x
               then count_list (liveRows props_data) r else 0))"
proof -
  have "\<not> isMilestone x \<and>
        (\<forall>r. count_list (milestones x) r =
              (if isMilestone r \<and> parentId r = row_id x
               then count_list (liveRows props_data) r else 0))"
    if x: "x \<in> set res" for x
  proof -
    from order_pushed [OF assms x] obtain q l where
      q: "q \<in> set (liveRows props_data)" "\<not> isMilestone q"
        "x = annotate q l (milestonesOf props_data q)"
      by blast
    then show ?thesis
      by (simp add: milestonesOf_def count_list_filter)
  qed
  then show ?thesis by blast
qed

theorem milestones_attached_to_returned_parent_witness:
  "orderGanttRows 3 codeUnitOrder SortName Asc milestoneData =
     Inr [GanttRow ''p'' None ''Plan'' None (Some 1) (Some 9) (Some ''project'') [] (Some 0)
            [GanttRow ''m'' None ''Kickoff'' None (Some 5) (Some 5) (Some ''Milestone'') ''p'' None []]]
   \<and> \<not> isMilestone (GanttRow ''p'' None ''Plan'' None (Some 1) (Some 9) (Some ''project'') [] (Some 0)
            [GanttRow ''m'' None ''Kickoff'' None (Some 5) (Some 5) (Some ''Milestone'') ''p'' None []])
   \<and> count_list [GanttRow ''m'' None ''Kickoff'' None (Some 5) (Some 5) (Some ''Milestone'') ''p'' None []]
        (mkRow ''m'' ''Kickoff'' (Some 5) (Some 5) ''Milestone'' ''p'') = 1
   \<and> count_list [GanttRow ''m'' None ''Kickoff'' None (Some 5) (Some 5) (Some ''Milestone'') ''p'' None []]
        (mkRow ''o'' ''Lost'' (Some 7) (Some 7) ''milestone'' ''zzz'') = 0"
proof -
  let ?ms = "[GanttRow ''m'' None ''Kickoff'' None (Some 5) (Some 5) (Some ''Milestone'') ''p'' None []]"
  let ?p = "GanttRow ''p'' None ''Plan'' None (Some 1) (Some 9) (Some ''project'') [] (Some 0) ?ms"
  have run: "orderGanttRows 3 codeUnitOrder SortName Asc milestoneData = Inr [?p]"
    by (rule milestoneData_run)
  have p: "?p \<in> set [?p]" by simp
  from milestones_attached_to_returned_parent [OF run] p
  have "\<not> isMilestone ?p"
    and "\<And>r. count_list (milestones ?p) r =
              (if isMilestone r \<and> parentId r = row_id ?p
               then count_list (liveRows milestoneData) r else 0)"
    by blast+
  from this(1) this(2) [of "mkRow ''m'' ''Kickoff'' (Some 5) (Some 5) ''Milestone'' ''p''"]
    this(2) [of "mkRow ''o'' ''Lost'' (Some 7) (Some 7) ''milestone'' ''zzz''"] run
  show ?thesis
    by (simp add: milestoneData_def liveRows_def mkRow_def isMilestone_def toLowerCase_def lowerChar_def)
qed

subsection \<open>Sorting and sibling order\<close>

lemma lateLast_insertRow:
  assumes "lateLast P ys"
    and "\<forall>y\<in>set ys. (P x \<and> \<not> P y \<longrightarrow> c x y > 0) \<and> (\<not> P x \<and> P y \<longrightarrow> \<not> c x y > 0)"
  shows "lateLast P (insertRow c x ys)"
  using assms
proof (induction ys)
  case Nil
  then show ?case by simp
next
  case (Cons y ys)
  from Cons.prems(1) have tail: "lateLast P ys" and head: "P y \<longrightarrow> (\<forall>z\<in>set ys. P z)"
    unfolding lateLast.simps by blast+
  from Cons.prems(2) have cmp: "(P x \<and> \<not> P y \<longrightarrow> c x y > 0) \<and> (\<not> P x \<and> P y \<longrightarrow> \<not> c x y > 0)"
    and rest: "\<forall>y\<in>set ys. (P x \<and> \<not> P y \<longrightarrow> c x y > 0) \<and> (\<not> P x \<and> P y \<longrightarrow> \<not> c x y > 0)"
    unfolding list.set by blast+
  from Cons.IH [OF tail rest] have ih: "lateLast P (insertRow c x ys)" .
  show ?case
  proof (cases "c x y > 0")
    case True
    with cmp have "P y \<longrightarrow> P x" by blast
    with head have "P y \<longrightarrow> (\<forall>z\<in>set (insertRow c x ys). P z)"
      unfolding set_insertRow by blast
    with ih have "lateLast P (y # insertRow c x ys)"
      unfolding lateLast.simps by blast
    with True show ?thesis by (simp only: insertRow.simps if_True)
  next
    case False
    with cmp have "P x \<longrightarrow> P y" by blast
    with head have "P x \<longrightarrow> (\<forall>z\<in>set (y # ys). P z)"
      unfolding list.set by blast
    with Cons.prems(1) have "lateLast P (x # y # ys)"
      unfolding lateLast.simps by blast
    with False show ?thesis by (simp only: insertRow.simps if_False)
  qed
qed

lemma lateLast_sortList:
  assumes "\<forall>a\<in>set xs. \<forall>b\<in>set xs. (P a \<and> \<not> P b \<longrightarrow> c a b > 0) \<and> (\<not> P a \<and> P b \<longrightarrow> \<not> c a b > 0)"
  shows "lateLast P (sortList c xs)"
  using assms
proof (induction xs)
  case Nil
  then show ?case by (simp add: sortList_def)
next
  case (Cons x xs)
  from Cons.prems have "\<forall>a\<in>set xs. \<forall>b\<in>set xs. (P a \<and> \<not> P b \<longrightarrow> c a b > 0) \<and> (\<not> P a \<and> P b \<longrightarrow> \<not> c a b > 0)"
    unfolding list.set by blast
  then have ih: "lateLast P (sortList c xs)" by (rule Cons.IH)
  from Cons.prems have "\<forall>y\<in>set (sortList c xs). (P x \<and> \<not> P y \<longrightarrow> c x y > 0) \<and> (\<not> P x \<and> P y \<longrightarrow> \<not> c x y > 0)"
    unfolding set_sortList list.set by blast
  with ih have "lateLast P (insertRow c x (sortList c xs))"
    by (rule lateLast_insertRow)
  then show ?case
    by (simp only: sortList_def foldr.simps o_apply)
qed

lemma valForDate_valid:
  "validDate d \<Longrightarrow> d \<noteq> None \<Longrightarrow> valForDate d < MAX_SAFE_INTEGER"
  by (cases d) (simp_all add: validDate_def valForDate_def MAX_TIME_def MAX_SAFE_INTEGER_def)

lemma compare_primary_less:
  assumes "sf \<noteq> SortName" "valForDate (sortDate sf a) < valForDate (sortDate sf b)"
  shows "compare lc sf sd a b = (if sd = Asc then - 1 else 1)"
  using assms by (cases sf) (simp_all add: compare_def sortDate_def Let_def)

lemma compare_primary_greater:
  assumes "sf \<noteq> SortName" "valForDate (sortDate sf b) < valForDate (sortDate sf a)"
  shows "compare lc sf sd a b = (if sd = Asc then 1 else - 1)"
  using assms by (cases sf) (simp_all add: compare_def sortDate_def Let_def)

lemma compare_sortsLate:
  assumes "sf \<noteq> SortName" "validDate (sortDate sf a)" "validDate (sortDate sf b)"
  shows "(sortsLate sf sd a \<and> \<not> sortsLate sf sd b \<longrightarrow> compare lc sf sd a b > 0) \<and>
         (\<not> sortsLate sf sd a \<and> sortsLate sf sd b \<longrightarrow> \<not> compare lc sf sd a b > 0)"
proof -
  have none: "valForDate None = MAX_SAFE_INTEGER" by (simp add: valForDate_def)
  have gt: "compare lc sf sd a b = (if sd = Asc then 1 else - 1)"
    if "sortDate sf a = None" "sortDate sf b \<noteq> None"
    using that valForDate_valid [OF assms(3)]
      compare_primary_greater [OF assms(1), where a = a and b = b and lc = lc and sd = sd]
    by (simp add: none)
  have lt: "compare lc sf sd a b = (if sd = Asc then - 1 else 1)"
    if "sortDate sf a \<noteq> None" "sortDate sf b = None"
    using that valForDate_valid [OF assms(2)]
      compare_primary_less [OF assms(1), where a = a and b = b and lc = lc and sd = sd]
    by (simp add: none)
  show ?thesis
    using gt lt by (cases sd) (auto simp: sortsLate_def)
qed

lemma takeWhile_append_stop:
  "\<not> p r \<Longrightarrow> takeWhile p (xs @ r # rs) = takeWhile p xs"
  by (induction xs) auto

lemma siblingsFrom_append:
  assumes "R = [] \<or> levelOf (hd R) < levelOf y"
  shows "siblingsFrom ((y # xs) @ R) = siblingsFrom (y # xs)"
proof (cases R)
  case Nil
  then show ?thesis by simp
next
  case (Cons r rs)
  with assms have "\<not> levelOf y \<le> levelOf r" by simp
  then have "takeWhile (\<lambda>r. levelOf y \<le> levelOf r) ((y # xs) @ r # rs)
      = takeWhile (\<lambda>r. levelOf y \<le> levelOf r) (y # xs)"
    by (rule takeWhile_append_stop)
  with Cons show ?thesis by (simp add: siblingsFrom_def)
qed

lemma siblingsLateLast_append:
  assumes "siblingsLateLast P xs" "siblingsLateLast P R"
    and "\<forall>x\<in>set xs. L < levelOf x" "R = [] \<or> levelOf (hd R) \<le> L"
  shows "siblingsLateLast P (xs @ R)"
  using assms(1,3)
proof (induction xs)
  case Nil
  with assms(2) show ?case by simp
next
  case (Cons y xs)
  from Cons.prems(2) assms(4) have "R = [] \<or> levelOf (hd R) < levelOf y" by auto
  then have eq: "siblingsFrom ((y # xs) @ R) = siblingsFrom (y # xs)"
    by (rule siblingsFrom_append)
  from Cons.prems have t: "siblingsLateLast P xs" "\<forall>x\<in>set xs. L < levelOf x"
    and h: "P y \<longrightarrow> (\<forall>b\<in>set (siblingsFrom (y # xs)). P b)"
    unfolding siblingsLateLast.simps list.set by blast+
  from t have "siblingsLateLast P (xs @ R)" by (rule Cons.IH)
  with h eq have "siblingsLateLast P (y # (xs @ R))"
    unfolding siblingsLateLast.simps append_Cons by metis
  then show ?case unfolding append_Cons .
qed

lemma siblingsFrom_subset:
  "set (siblingsFrom (h # xs)) \<subseteq> insert h {x \<in> set xs. levelOf x = levelOf h}"
proof -
  have "set (takeWhile (\<lambda>r. levelOf h \<le> levelOf r) (h # xs)) \<subseteq> set (h # xs)"
    by (auto dest: set_takeWhileD)
  then show ?thesis
    by (auto simp: siblingsFrom_def)
qed

lemma forest_siblings:
  assumes "\<forall>zs\<in>set zss. subtreeAt P L zs" "lateLast P (map hd zss)"
  shows "siblingsLateLast P (concat zss) \<and>
         (\<forall>x\<in>set (concat zss). L \<le> levelOf x) \<and>
         (\<forall>x\<in>set (concat zss). levelOf x = L \<longrightarrow> x \<in> hd ` set zss) \<and>
         (concat zss = [] \<or> levelOf (hd (concat zss)) = L)"
  using assms
proof (induction zss)
  case Nil
  then show ?case by simp
next
  case (Cons zs rest)
  let ?R = "concat rest"
  from Cons.prems(1) have zs: "subtreeAt P L zs" and rest: "\<forall>zs\<in>set rest. subtreeAt P L zs"
    unfolding list.set by blast+
  from Cons.prems(2) have ll: "lateLast P (map hd rest)"
    and hl: "P (hd zs) \<longrightarrow> (\<forall>y\<in>set (map hd rest). P y)"
    unfolding list.map lateLast.simps by blast+
  from Cons.IH [OF rest ll] have
    R1: "siblingsLateLast P ?R" and R2: "\<forall>x\<in>set ?R. L \<le> levelOf x"
    and R3: "\<forall>x\<in>set ?R. levelOf x = L \<longrightarrow> x \<in> hd ` set rest"
    and R4: "?R = [] \<or> levelOf (hd ?R) = L"
    by blast+
  from zs obtain h t where ht: "zs = h # t" and lh: "levelOf h = L"
    and lt: "\<forall>x\<in>set t. L < levelOf x" and sh: "siblingsLateLast P (h # t)"
    unfolding subtreeAt_def by (cases zs) auto
  from sh have st: "siblingsLateLast P t"
    unfolding siblingsLateLast.simps by blast
  from R4 have "?R = [] \<or> levelOf (hd ?R) \<le> L" by auto
  with st R1 lt have tail: "siblingsLateLast P (t @ ?R)"
    by (rule siblingsLateLast_append)
  have sub: "set (siblingsFrom (h # t @ ?R)) \<subseteq> insert h (hd ` set rest)"
  proof
    fix b assume "b \<in> set (siblingsFrom (h # t @ ?R))"
    with siblingsFrom_subset [of h "t @ ?R"]
    have "b = h \<or> (b \<in> set (t @ ?R) \<and> levelOf b = L)" using lh by auto
    then show "b \<in> insert h (hd ` set rest)"
      using lt R3 by auto
  qed
  have head: "P h \<longrightarrow> (\<forall>b\<in>set (siblingsFrom (h # t @ ?R)). P b)"
  proof (intro impI ballI)
    fix b assume ph: "P h" and "b \<in> set (siblingsFrom (h # t @ ?R))"
    with sub have "b = h \<or> b \<in> hd ` set rest" by blast
    moreover from ph hl ht have "\<forall>y\<in>set (map hd rest). P y" by simp
    then have "\<forall>y\<in>hd ` set rest. P y" unfolding set_map .
    ultimately show "P b" using ph by blast
  qed
  from head tail have 1: "siblingsLateLast P (h # t @ ?R)"
    unfolding siblingsLateLast.simps by blast
  have 2: "\<forall>x\<in>set (h # t @ ?R). L \<le> levelOf x"
    using lh lt R2 by (auto intro: less_imp_le)
  have 3: "\<forall>x\<in>set (h # t @ ?R). levelOf x = L \<longrightarrow> x \<in> hd ` set (zs # rest)"
    using ht lt R3 by auto
  from 1 2 3 lh ht show ?case by simp
qed

lemma lateLast_heads:
  assumes "list_all2 (\<lambda>k zs. P (hd zs) \<longleftrightarrow> P k) ks zss" "lateLast P ks"
  shows "lateLast P (map hd zss)"
  using assms
proof (induction rule: list_all2_induct)
  case Nil
  then show ?case by simp
next
  case (Cons k ks zs zss)
  from Cons.prems have t: "lateLast P ks" and h: "P k \<longrightarrow> (\<forall>y\<in>set ks. P y)"
    unfolding lateLast.simps by blast+
  have "\<forall>z\<in>set zss. P (hd z)" if "P k"
  proof
    fix z assume "z \<in> set zss"
    from list_all2_right [OF Cons.hyps(2) this] obtain y where "y \<in> set ks" "P (hd z) \<longleftrightarrow> P y"
      by blast
    with h that show "P (hd z)" by blast
  qed
  with Cons.hyps(1) have "P (hd zs) \<longrightarrow> (\<forall>y\<in>set (map hd zss). P y)"
    unfolding set_map by blast
  with Cons.IH [OF t] show ?case
    unfolding list.map lateLast.simps by blast
qed

lemma levelOf_annotate [simp]: "levelOf (annotate r l ms) = l"
  by (simp add: levelOf_def)

lemma process_siblings:
  assumes run: "process n c m row lvl = Inr xs"
    and sorted: "\<forall>k. lateLast P (sortList c (filter (\<lambda>k. \<not> isMilestone k) (entries m k)))"
    and inv: "\<forall>r l ms. P (annotate r l ms) \<longleftrightarrow> P r"
  shows "subtreeAt P lvl xs \<and> (P (hd xs) \<longleftrightarrow> P row)"
  using run
proof (induction rule: process_Inr_induct)
  case (step row lvl zss)
  let ?kids = "sortList c (filter (\<lambda>k. \<not> isMilestone k) (entries m (row_id row)))"
  let ?h = "annotate row lvl (filter isMilestone (entries m (row_id row)))"
  let ?F = "concat zss"
  have trees: "\<forall>zs\<in>set zss. subtreeAt P (lvl + 1) zs"
    using list_all2_right [OF step(2)] by blast
  from step(2) have "list_all2 (\<lambda>k zs. P (hd zs) \<longleftrightarrow> P k) ?kids zss"
    by (rule list_all2_mono) blast
  moreover from sorted have "lateLast P ?kids" by blast
  ultimately have "lateLast P (map hd zss)" by (rule lateLast_heads)
  with trees have F: "siblingsLateLast P ?F" "\<forall>x\<in>set ?F. lvl + 1 \<le> levelOf x"
    using forest_siblings [of zss P "lvl + 1"] by blast+
  have deeper: "\<forall>x\<in>set ?F. lvl < levelOf x"
  proof
    fix x assume "x \<in> set ?F"
    with F(2) have "lvl + 1 \<le> levelOf x" by blast
    then show "lvl < levelOf x" by simp
  qed
  have "set (siblingsFrom (?h # ?F)) \<subseteq> {?h}"
    using siblingsFrom_subset [of ?h ?F] deeper by auto
  then have "P ?h \<longrightarrow> (\<forall>b\<in>set (siblingsFrom (?h # ?F)). P b)" by blast
  with F(1) have "siblingsLateLast P (?h # ?F)"
    unfolding siblingsLateLast.simps by blast
  with deeper have "subtreeAt P lvl (?h # ?F)"
    by (simp add: subtreeAt_def)
  moreover from inv have "P (hd (?h # ?F)) \<longleftrightarrow> P row" by simp
  ultimately show ?case by blast
qed

lemma order_siblings:
  assumes run: "orderGanttRows stack lc sf sd props_data = Inr res"
    and sorted: "\<forall>xs. set xs \<subseteq> set props_data \<longrightarrow> lateLast P (sortList (compare lc sf sd) xs)"
    and inv: "\<forall>r l ms. P (annotate r l ms) \<longleftrightarrow> P r"
  shows "siblingsLateLast P res"
proof -
  let ?c = "compare lc sf sd"
  from run obtain m zss where
    e: "entries m = (\<lambda>k. filter (\<lambda>r. parentId r = k) (liveRows props_data))"
    and all: "list_all2 (\<lambda>r zs. process stack ?c m r 0 = Inr zs)
           (sortList ?c (filter (\<lambda>r. \<not> isMilestone r) (entries m []))) zss"
    and res: "res = concat zss"
    by (rule orderGanttRows_cases)
  have s: "\<forall>k. lateLast P (sortList ?c (filter (\<lambda>k. \<not> isMilestone k) (entries m k)))"
  proof
    fix k
    have "set (filter (\<lambda>k. \<not> isMilestone k) (entries m k)) \<subseteq> set props_data"
      by (auto simp: e liveRows_def)
    with sorted show "lateLast P (sortList ?c (filter (\<lambda>k. \<not> isMilestone k) (entries m k)))"
      by blast
  qed
  have each: "list_all2 (\<lambda>r zs. subtreeAt P 0 zs \<and> (P (hd zs) \<longleftrightarrow> P r))
           (sortList ?c (filter (\<lambda>r. \<not> isMilestone r) (entries m []))) zss"
    using all
  proof (rule list_all2_mono)
    fix r zs assume "process stack ?c m r 0 = Inr zs"
    from process_siblings [OF this s inv] show "subtreeAt P 0 zs \<and> (P (hd zs) \<longleftrightarrow> P r)" .
  qed
  have trees: "\<forall>zs\<in>set zss. subtreeAt P 0 zs"
    using list_all2_right [OF each] by blast
  from each have "list_all2 (\<lambda>k zs. P (hd zs) \<longleftrightarrow> P k)
           (sortList ?c (filter (\<lambda>r. \<not> isMilestone r) (entries m []))) zss"
    by (rule list_all2_mono) blast
  moreover from s have "lateLast P (sortList ?c (filter (\<lambda>r. \<not> isMilestone r) (entries m [])))"
    by blast
  ultimately have "lateLast P (map hd zss)" by (rule lateLast_heads)
  with trees res show ?thesis
    using forest_siblings [of zss P 0] by blast
qed

lemma siblingsLateLast_nth:
  assumes "siblingsLateLast P xs" "i < length xs" "P (xs ! i)"
  shows "\<forall>b\<in>set (siblingsFrom (drop i xs)). P b"
  using assms
proof (induction xs arbitrary: i)
  case Nil
  then show ?case by simp
next
  case (Cons x xs)
  from Cons.prems(1) have h: "P x \<longrightarrow> (\<forall>b\<in>set (siblingsFrom (x # xs)). P b)"
    and t: "siblingsLateLast P xs"
    unfolding siblingsLateLast.simps by blast+
  show ?case
  proof (cases i)
    case 0
    with Cons.prems(3) h show ?thesis by simp
  next
    case (Suc j)
    with Cons.prems have "j < length xs" "P (xs ! j)" by simp_all
    from Cons.IH [OF t this] Suc show ?thesis by simp
  qed
qed

subsection \<open>Undated rows\<close>

lemma undatedData_desc:
  "orderGanttRows 3 codeUnitOrder SortStartDate Desc undatedData =
     Inr [GanttRow ''b'' None ''Beta'' None None (Some 1720000000000) (Some ''project'') [] (Some 0) [],
          GanttRow ''d'' None ''Delta'' None None None (Some ''project'') [] (Some 0) [],
          GanttRow ''a'' None ''Alpha'' None (Some 1700000000000) (Some 1710000000000) (Some ''project'') [] (Some 0) [],
          GanttRow ''c'' None ''Gamma'' None (Some 1690000000000) None (Some ''tender'') [] (Some 0) []]"
  by code_simp

lemma undatedData_asc:
  "orderGanttRows 3 codeUnitOrder SortStartDate Asc undatedData =
     Inr [GanttRow ''c'' None ''Gamma'' None (Some 1690000000000) None (Some ''tender'') [] (Some 0) [],
          GanttRow ''a'' None ''Alpha'' None (Some 1700000000000) (Some 1710000000000) (Some ''project'') [] (Some 0) [],
          GanttRow ''b'' None ''Beta'' None None (Some 1720000000000) (Some ''project'') [] (Some 0) [],
          GanttRow ''d'' None ''Delta'' None None None (Some ''project'') [] (Some 0) []]"
  by code_simp

text \<open>
  Claim C1 says that rows without the sort date come after their dated siblings in
  both directions.  In descending order they come first: the comparator gives an
  absent date the key \<open>MAX_SAFE_INTEGER\<close> and multiplies the outcome by the direction.
  Here the undated root \<open>b\<close> is returned ahead of its dated sibling \<open>a\<close>.
\<close>

theorem undated_first_when_descending_counterexample:
  "orderGanttRows 3 codeUnitOrder SortStartDate Desc undatedData =
     Inr [GanttRow ''b'' None ''Beta'' None None (Some 1720000000000) (Some ''project'') [] (Some 0) [],
          GanttRow ''d'' None ''Delta'' None None None (Some ''project'') [] (Some 0) [],
          GanttRow ''a'' None ''Alpha'' None (Some 1700000000000) (Some 1710000000000) (Some ''project'') [] (Some 0) [],
          GanttRow ''c'' None ''Gamma'' None (Some 1690000000000) None (Some ''tender'') [] (Some 0) []]
   \<and> startDate (GanttRow ''b'' None ''Beta'' None None (Some 1720000000000) (Some ''project'') [] (Some 0) []) = None
   \<and> startDate (GanttRow ''a'' None ''Alpha'' None (Some 1700000000000) (Some 1710000000000) (Some ''project'') [] (Some 0) []) \<noteq> None
   \<and> parentId (GanttRow ''b'' None ''Beta'' None None (Some 1720000000000) (Some ''project'') [] (Some 0) [])
       = parentId (GanttRow ''a'' None ''Alpha'' None (Some 1700000000000) (Some 1710000000000) (Some ''project'') [] (Some 0) [])"
  using undatedData_desc by simp

text \<open>
  Claim C1, amended.  When the sort field is \<open>startDate\<close> or \<open>endDate\<close> and the dates
  are valid time values, then in the sequence returned by \<open>orderGanttRows\<close>: in
  ascending order every later sibling of a row without the sort date is without it
  too (undated rows come last among their siblings); in descending order every later
  sibling of a row with the sort date has one too (undated rows come first).
\<close>

theorem undated_rows_follow_direction:
  assumes "orderGanttRows stack lc sortField sortDir props_data = Inr res"
    and "sortField \<noteq> SortName"
    and "\<forall>r\<in>set props_data. validDate (sortDate sortField r)"
    and "i < length res"
  shows "(sortDir = Asc \<longrightarrow> sortDate sortField (res ! i) = None \<longrightarrow>
            (\<forall>b\<in>set (siblingsFrom (drop i res)). sortDate sortField b = None))
       \<and> (sortDir = Desc \<longrightarrow> sortDate sortField (res ! i) \<noteq> None \<longrightarrow>
            (\<forall>b\<in>set (siblingsFrom (drop i res)). sortDate sortField b \<noteq> None))"
proof -
  let ?P = "sortsLate sortField sortDir"
  have sorted: "\<forall>xs. set xs \<subseteq> set props_data \<longrightarrow>
      lateLast ?P (sortList (compare lc sortField sortDir) xs)"
  proof (intro allI impI)
    fix xs assume sub: "set xs \<subseteq> set props_data"
    have "\<forall>a\<in>set xs. \<forall>b\<in>set xs.
        (?P a \<and> \<not> ?P b \<longrightarrow> compare lc sortField sortDir a b > 0) \<and>
        (\<not> ?P a \<and> ?P b \<longrightarrow> \<not> compare lc sortField sortDir a b > 0)"
    proof (intro ballI)
      fix a b assume "a \<in> set xs" "b \<in> set xs"
      with sub assms(3) have "validDate (sortDate sortField a)" "validDate (sortDate sortField b)"
        by blast+
      with assms(2) show "(?P a \<and> \<not> ?P b \<longrightarrow> compare lc sortField sortDir a b > 0) \<and>
        (\<not> ?P a \<and> ?P b \<longrightarrow> \<not> compare lc sortField sortDir a b > 0)"
        by (rule compare_sortsLate)
    qed
    then show "lateLast ?P (sortList (compare lc sortField sortDir) xs)"
      by (rule lateLast_sortList)
  qed
  have inv: "\<forall>r l ms. ?P (annotate r l ms) \<longleftrightarrow> ?P r"
    by (simp add: sortsLate_def sortDate_def)
  from order_siblings [OF assms(1) sorted inv]
  have "siblingsLateLast ?P res" .
  from siblingsLateLast_nth [OF this assms(4)]
  have "?P (res ! i) \<longrightarrow> (\<forall>b\<in>set (siblingsFrom (drop i res)). ?P b)"
    by blast
  then show ?thesis
    by (cases sortDir) (simp_all add: sortsLate_def)
qed

theorem undated_rows_follow_direction_witness:
  "orderGanttRows 3 codeUnitOrder SortStartDate Asc undatedData =
     Inr [GanttRow ''c'' None ''Gamma'' None (Some 1690000000000) None (Some ''tender'') [] (Some 0) [],
          GanttRow ''a'' None ''Alpha'' None (Some 1700000000000) (Some 1710000000000) (Some ''project'') [] (Some 0) [],
          GanttRow ''b'' None ''Beta'' None None (Some 1720000000000) (Some ''project'') [] (Some 0) [],
          GanttRow ''d'' None ''Delta'' None None None (Some ''project'') [] (Some 0) []]
   \<and> map startDate (siblingsFrom
         [GanttRow ''b'' None ''Beta'' None None (Some 1720000000000) (Some ''project'') [] (Some 0) [],
          GanttRow ''d'' None ''Delta'' None None None (Some ''project'') [] (Some 0) []])
       = [None, None]"
proof -
  let ?res = "[GanttRow ''c'' None ''Gamma'' None (Some 1690000000000) None (Some ''tender'') [] (Some 0) [],
          GanttRow ''a'' None ''Alpha'' None (Some 1700000000000) (Some 1710000000000) (Some ''project'') [] (Some 0) [],
          GanttRow ''b'' None ''Beta'' None None (Some 1720000000000) (Some ''project'') [] (Some 0) [],
          GanttRow ''d'' None ''Delta'' None None None (Some ''project'') [] (Some 0) []]"
  have run: "orderGanttRows 3 codeUnitOrder SortStartDate Asc undatedData = Inr ?res"
    by (rule undatedData_asc)
  have sf: "SortStartDate \<noteq> SortName" by simp
  have valid: "\<forall>r\<in>set undatedData. validDate (sortDate SortStartDate r)"
    by (simp add: undatedData_def mkRow_def sortDate_def validDate_def MAX_TIME_def)
  have i: "2 < length ?res" by simp
  from undated_rows_follow_direction [OF run sf valid i] run show ?thesis
    by (simp add: sortDate_def siblingsFrom_def levelOf_def)
qed

section \<open>Properties of the calendar and the timeline geometry\<close>

lemma dayOfMonthStart_less: "dayOfMonthStart M < dayOfMonthStart (M + 1)"
  using month_length [of M] by simp

lemma dayOfMonthStart_mono_nat: "dayOfMonthStart M \<le> dayOfMonthStart (M + int n)"
proof (induction n)
  case 0
  then show ?case by simp
next
  case (Suc n)
  have e: "M + int (Suc n) = M + int n + 1" by simp
  have "dayOfMonthStart (M + int n) < dayOfMonthStart (M + int n + 1)"
    by (rule dayOfMonthStart_less)
  with Suc show ?case unfolding e by linarith
qed

lemma dayOfMonthStart_mono: "M \<le> N \<Longrightarrow> dayOfMonthStart M \<le> dayOfMonthStart N"
  using dayOfMonthStart_mono_nat [of M "nat (N - M)"] by simp

lemma dayOfMonthStart_epoch: "dayOfMonthStart 23640 = 0"
  by (simp add: dayOfMonthStart_def yearDays_def Let_def)

lemma dayOfMonthStart_upper: "dayOfMonthStart (23640 + int n) \<le> 31 * int n"
proof (induction n)
  case 0
  then show ?case by (simp add: dayOfMonthStart_epoch)
next
  case (Suc n)
  have e: "23640 + int (Suc n) = 23640 + int n + 1" by simp
  from month_length [of "23640 + int n"] Suc show ?case
    unfolding e by simp
qed

lemma dayOfMonthStart_lower: "dayOfMonthStart (23640 - int n) \<le> - 28 * int n"
proof (induction n)
  case 0
  then show ?case by (simp add: dayOfMonthStart_epoch)
next
  case (Suc n)
  have e: "23640 - int (Suc n) + 1 = 23640 - int n" by simp
  from month_length [of "23640 - int (Suc n)"] Suc show ?case
    unfolding e by simp
qed

lemma findMonth_spec:
  "dayOfMonthStart M \<le> d \<Longrightarrow>
     dayOfMonthStart (findMonth M d) \<le> d \<and> d < dayOfMonthStart (findMonth M d + 1)"
proof (induction M d rule: findMonth.induct)
  case (1 M d)
  show ?case
  proof (cases "dayOfMonthStart (M + 1) \<le> d")
    case True
    with "1.IH" have "dayOfMonthStart (findMonth (M + 1) d) \<le> d \<and>
        d < dayOfMonthStart (findMonth (M + 1) d + 1)" by simp
    moreover from True have "findMonth M d = findMonth (M + 1) d"
      by (subst findMonth.simps) simp
    ultimately show ?thesis by (simp only:)
  next
    case False
    then have "findMonth M d = M" by (subst findMonth.simps) simp
    with False "1.prems" show ?thesis by (simp only:) simp
  qed
qed

lemma search_start:
  "dayOfMonthStart (23640 + (if 0 \<le> d then d div 31 else d div 28 - 1)) \<le> d"
proof (cases "0 \<le> d")
  case True
  then have "23640 + d div 31 = 23640 + int (nat (d div 31))" by simp
  then have "dayOfMonthStart (23640 + d div 31) \<le> 31 * (d div 31)"
    using dayOfMonthStart_upper [of "nat (d div 31)"] True by simp
  also have "\<dots> \<le> d" by simp
  finally show ?thesis using True by simp
next
  case False
  then have neg: "d div 28 < 0" by simp
  define n where "n = nat (1 - d div 28)"
  have n: "int n = 1 - d div 28" using neg by (simp add: n_def)
  have e: "23640 + (d div 28 - 1) = 23640 - int n" using n by simp
  have "dayOfMonthStart (23640 - int n) \<le> - 28 * int n"
    by (rule dayOfMonthStart_lower)
  then have "dayOfMonthStart (23640 + (d div 28 - 1)) \<le> 28 * (d div 28) - 28"
    unfolding e n by simp
  also have "\<dots> \<le> d"
  proof -
    have "28 * (d div 28) \<le> d" by simp
    then show ?thesis by linarith
  qed
  finally show ?thesis using False by simp
qed

lemma monthIndexOf_spec:
  "dayOfMonthStart (monthIndexOf t) \<le> dayOf t \<and> dayOf t < dayOfMonthStart (monthIndexOf t + 1)"
  unfolding monthIndexOf_def Let_def by (rule findMonth_spec) (rule search_start)

lemma monthIndexOf_unique:
  assumes "dayOfMonthStart M \<le> dayOf t" "dayOf t < dayOfMonthStart (M + 1)"
  shows "monthIndexOf t = M"
proof (rule ccontr)
  assume ne: "monthIndexOf t \<noteq> M"
  let ?K = "monthIndexOf t"
  from monthIndexOf_spec [of t] have K: "dayOfMonthStart ?K \<le> dayOf t" "dayOf t < dayOfMonthStart (?K + 1)"
    by simp_all
  from ne consider "?K + 1 \<le> M" | "M + 1 \<le> ?K" by linarith
  then show False
  proof cases
    case 1
    from dayOfMonthStart_mono [OF 1] K(2) assms(1) show False by simp
  next
    case 2
    from dayOfMonthStart_mono [OF 2] K(1) assms(2) show False by simp
  qed
qed

lemma monthIndexOf_month_start:
  assumes "0 \<le> r" "r < msPerDay"
  shows "monthIndexOf (dayOfMonthStart M * msPerDay + r) = M"
proof (rule monthIndexOf_unique)
  have mp: "0 < msPerDay" by (simp add: msPerDay_def)
  have "dayOf (dayOfMonthStart M * msPerDay + r) = dayOfMonthStart M"
    unfolding dayOf_def using assms mp by (simp add: div_pos_pos_trivial)
  then show "dayOfMonthStart M \<le> dayOf (dayOfMonthStart M * msPerDay + r)"
    and "dayOf (dayOfMonthStart M * msPerDay + r) < dayOfMonthStart (M + 1)"
    using dayOfMonthStart_less [of M] by simp_all
qed

lemma newDate_month_start:
  "newDate y m 1 0 0 0 0 = dayOfMonthStart (12 * centuryYear y + m) * msPerDay"
  by (simp add: newDate_def)

lemma newDate_month_end:
  "newDate y m 0 23 59 59 999 = (dayOfMonthStart (12 * centuryYear y + m) - 1) * msPerDay + 86399999"
  by (simp add: newDate_def)

lemma monthIndexOf_newDate:
  "monthIndexOf (newDate y m 1 0 0 0 0) = 12 * centuryYear y + m"
  using monthIndexOf_month_start [of 0 "12 * centuryYear y + m"]
  by (simp add: newDate_month_start msPerDay_def)

lemma bounds_fields:
  fixes props :: Props
  defines "scan \<equiv> foldl scanRow (None, None) (data props)"
  defines "minStart \<equiv> (case fst scan of None \<Rightarrow> ganttStartDate props | Some t \<Rightarrow> t)"
  defines "maxEnd \<equiv> (case snd scan of None \<Rightarrow> ganttEndDate props | Some t \<Rightarrow> t)"
  defines "K \<equiv> 12 * centuryYear (getFullYear maxEnd) + getMonth maxEnd"
  shows "b_start (getTimelineBounds props) =
           dayOfMonthStart (12 * centuryYear (getFullYear minStart) + getMonth minStart) * msPerDay"
    and "b_end (getTimelineBounds props) =
           (dayOfMonthStart (12 * centuryYear (K div 12) + (K mod 12 + 1)) - 1) * msPerDay + 86399999"
proof -
  show "b_start (getTimelineBounds props) =
           dayOfMonthStart (12 * centuryYear (getFullYear minStart) + getMonth minStart) * msPerDay"
    by (simp add: getTimelineBounds_def Let_def split_beta scan_def minStart_def newDate_month_start)
  have "monthIndexOf (newDate (getFullYear maxEnd) (getMonth maxEnd) 1 0 0 0 0) = K"
    by (simp add: monthIndexOf_newDate K_def)
  then show "b_end (getTimelineBounds props) =
           (dayOfMonthStart (12 * centuryYear (K div 12) + (K mod 12 + 1)) - 1) * msPerDay + 86399999"
    by (simp add: getTimelineBounds_def Let_def split_beta scan_def maxEnd_def
        newDate_month_end getFullYear_def getMonth_def)
qed

lemma last_ms_of_day: "((a::int) * 86400000 + 86399999) mod 86400000 = 86399999"
  by simp

lemma bounds_time_within_day:
  "timeWithinDay (b_start (getTimelineBounds props)) = 0"
  "timeWithinDay (b_end (getTimelineBounds props)) = 86399999"
proof -
  show "timeWithinDay (b_start (getTimelineBounds props)) = 0"
    by (simp add: bounds_fields timeWithinDay_def msPerDay_def)
  show "timeWithinDay (b_end (getTimelineBounds props)) = 86399999"
    unfolding bounds_fields timeWithinDay_def msPerDay_def by (rule last_ms_of_day)
qed

lemma bounds_distinct:
  "b_start (getTimelineBounds props) \<noteq> b_end (getTimelineBounds props)"
proof
  assume "b_start (getTimelineBounds props) = b_end (getTimelineBounds props)"
  then have "timeWithinDay (b_start (getTimelineBounds props)) = timeWithinDay (b_end (getTimelineBounds props))"
    by simp
  then show False by (simp add: bounds_time_within_day)
qed

lemma halfYear_bounds:
  "b_start (getTimelineBounds halfYearProps) = 1704067200000"
  "b_end (getTimelineBounds halfYearProps) = 1719791999999"
proof -
  have s: "foldl scanRow (None, None) (data halfYearProps) = (Some 1704067200000, Some 1719705600000)"
    by (simp add: halfYearProps_def mkRow_def scanRow_def pickMin_def pickMax_def)
  have a: "monthIndexOf 1704067200000 = 24288"
    by (rule monthIndexOf_unique)
       (simp_all add: dayOf_def msPerDay_def dayOfMonthStart_def yearDays_def Let_def)
  have b: "monthIndexOf 1719705600000 = 24293"
    by (rule monthIndexOf_unique)
       (simp_all add: dayOf_def msPerDay_def dayOfMonthStart_def yearDays_def Let_def)
  show "b_start (getTimelineBounds halfYearProps) = 1704067200000"
    by (simp add: bounds_fields s a getFullYear_def getMonth_def centuryYear_def
        msPerDay_def dayOfMonthStart_def yearDays_def Let_def)
  show "b_end (getTimelineBounds halfYearProps) = 1719791999999"
    by (simp add: bounds_fields s b getFullYear_def getMonth_def centuryYear_def
        msPerDay_def dayOfMonthStart_def yearDays_def Let_def)
qed

lemma inverted_bounds:
  "b_start (getTimelineBounds invertedProps) = 1748736000000"
  "b_end (getTimelineBounds invertedProps) = 1706745599999"
proof -
  have s: "foldl scanRow (None, None) (data invertedProps) = (Some 1749945600000, Some 1704844800000)"
    by (simp add: invertedProps_def mkRow_def scanRow_def pickMin_def pickMax_def)
  have a: "monthIndexOf 1749945600000 = 24305"
    by (rule monthIndexOf_unique)
       (simp_all add: dayOf_def msPerDay_def dayOfMonthStart_def yearDays_def Let_def)
  have b: "monthIndexOf 1704844800000 = 24288"
    by (rule monthIndexOf_unique)
       (simp_all add: dayOf_def msPerDay_def dayOfMonthStart_def yearDays_def Let_def)
  show "b_start (getTimelineBounds invertedProps) = 1748736000000"
    by (simp add: bounds_fields s a getFullYear_def getMonth_def centuryYear_def
        msPerDay_def dayOfMonthStart_def yearDays_def Let_def)
  show "b_end (getTimelineBounds invertedProps) = 1706745599999"
    by (simp add: bounds_fields s b getFullYear_def getMonth_def centuryYear_def
        msPerDay_def dayOfMonthStart_def yearDays_def Let_def)
qed

subsection \<open>\<open>calculateStartX\<close>\<close>

text \<open>
  Claim C6 says that \<open>calculateStartX\<close> returns \<open>-1\<close> for every date after the axis
  end.  The test against the axis start comes first, and the axis start can lie after
  the axis end: with one row that only has a start date in June 2025 and one row
  that only has an end date in January 2024, the axis runs from 1 June 2025 back to
  31 January 2024, and 3 July 2024, which is after the axis end, is mapped to 0.
\<close>

theorem date_after_inverted_axis_end_counterexample:
  "calculateStartX invertedProps (Some 1720000000000) = 0
   \<and> b_end (getTimelineBounds invertedProps) < 1720000000000"
  by (simp add: calculateStartX_def Let_def inverted_bounds)

text \<open>
  Claim C6, amended.  When the axis start is before the axis end,
  \<open>calculateStartX\<close> returns \<open>-1\<close> for the null date, 0 for every date at or before the
  axis start, \<open>-1\<close> for every date after the axis end, the linear percentage
  \<open>(date - start) / (end - start) * 100\<close> in between, and is monotonic non-decreasing
  over the dates within the bounds.  (The percentage is computed exactly.)
\<close>

theorem calculateStartX_linear_monotone:
  assumes "b_start (getTimelineBounds props) < b_end (getTimelineBounds props)"
  shows "calculateStartX props None = - 1
       \<and> (d \<le> b_start (getTimelineBounds props) \<longrightarrow> calculateStartX props (Some d) = 0)
       \<and> (b_end (getTimelineBounds props) < d \<longrightarrow> calculateStartX props (Some d) = - 1)
       \<and> (b_start (getTimelineBounds props) \<le> d \<and> d \<le> b_end (getTimelineBounds props) \<longrightarrow>
            calculateStartX props (Some d) =
              real_of_int (d - b_start (getTimelineBounds props)) /
              real_of_int (b_end (getTimelineBounds props) - b_start (getTimelineBounds props)) * 100)
       \<and> (b_start (getTimelineBounds props) \<le> d1 \<and> d1 \<le> d2 \<and> d2 \<le> b_end (getTimelineBounds props) \<longrightarrow>
            calculateStartX props (Some d1) \<le> calculateStartX props (Some d2))"
proof -
  define s where "s = b_start (getTimelineBounds props)"
  define e where "e = b_end (getTimelineBounds props)"
  have se: "s < e" using assms by (simp add: s_def e_def)
  have X: "calculateStartX props (Some x) =
      (if x < s then 0 else if x > e then - 1 else real_of_int (x - s) / real_of_int (e - s) * 100)" for x
    by (simp add: calculateStartX_def Let_def s_def e_def)
  have mono: "calculateStartX props (Some d1) \<le> calculateStartX props (Some d2)"
    if "s \<le> d1" "d1 \<le> d2" "d2 \<le> e"
  proof -
    have x1: "calculateStartX props (Some d1) = real_of_int (d1 - s) / real_of_int (e - s) * 100"
      using that by (simp add: X)
    have x2: "calculateStartX props (Some d2) = real_of_int (d2 - s) / real_of_int (e - s) * 100"
      using that by (simp add: X)
    from that se have "real_of_int (d1 - s) / real_of_int (e - s) \<le> real_of_int (d2 - s) / real_of_int (e - s)"
      by (intro divide_right_mono) simp_all
    then have "real_of_int (d1 - s) / real_of_int (e - s) * 100 \<le> real_of_int (d2 - s) / real_of_int (e - s) * 100"
      by (rule mult_right_mono) simp
    then show ?thesis unfolding x1 x2 .
  qed
  have "calculateStartX props None = - 1" by (simp add: calculateStartX_def)
  moreover have "d \<le> s \<longrightarrow> calculateStartX props (Some d) = 0" using se by (auto simp: X)
  moreover have "e < d \<longrightarrow> calculateStartX props (Some d) = - 1" using se by (simp add: X)
  moreover have "s \<le> d \<and> d \<le> e \<longrightarrow>
      calculateStartX props (Some d) = real_of_int (d - s) / real_of_int (e - s) * 100"
    by (simp add: X)
  moreover have "s \<le> d1 \<and> d1 \<le> d2 \<and> d2 \<le> e \<longrightarrow>
      calculateStartX props (Some d1) \<le> calculateStartX props (Some d2)"
    using mono by blast
  ultimately show ?thesis unfolding s_def e_def by blast
qed

theorem calculateStartX_linear_monotone_witness:
  "b_start (getTimelineBounds halfYearProps) < b_end (getTimelineBounds halfYearProps)
   \<and> calculateStartX halfYearProps (Some 1704067200000) = 0
   \<and> calculateStartX halfYearProps (Some 1719792000000) = - 1
   \<and> calculateStartX halfYearProps (Some 1710460800000) = 639360000000 / 15724799999
   \<and> calculateStartX halfYearProps (Some 1710460800000) \<le> calculateStartX halfYearProps (Some 1710460800001)"
proof -
  have lt: "b_start (getTimelineBounds halfYearProps) < b_end (getTimelineBounds halfYearProps)"
    by (simp add: halfYear_bounds)
  from calculateStartX_linear_monotone [OF lt, of 1704067200000]
    calculateStartX_linear_monotone [OF lt, of 1719792000000]
    calculateStartX_linear_monotone [OF lt, of 1710460800000 1710460800000 1710460800001]
    lt
  show ?thesis
    by (simp add: halfYear_bounds)
qed

subsection \<open>\<open>calculateEndWidth\<close>\<close>

text \<open>
  Claim C7.  For every pair of dates \<open>calculateEndWidth\<close> returns \<open>-1\<close> when either
  date is null or the range does not meet the axis bounds; the sentinel width 2 when
  the range clipped to the bounds is empty or inverted; otherwise the clipped
  duration as a positive percentage of the axis span.  It never returns zero.
  Here \<open>max s start\<close> is \<open>clipStart\<close> and \<open>min e end\<close> is \<open>clipEnd\<close>.
\<close>

theorem calculateEndWidth_sentinels:
  fixes props :: Props and s e :: int
  defines "start \<equiv> b_start (getTimelineBounds props)"
  defines "end \<equiv> b_end (getTimelineBounds props)"
  shows "calculateEndWidth props None rowEnd = - 1
       \<and> calculateEndWidth props rowStart None = - 1
       \<and> (e < start \<or> end < s \<longrightarrow> calculateEndWidth props (Some s) (Some e) = - 1)
       \<and> (\<not> (e < start \<or> end < s) \<and> min e end \<le> max s start \<longrightarrow>
            calculateEndWidth props (Some s) (Some e) = 2)
       \<and> (\<not> (e < start \<or> end < s) \<and> max s start < min e end \<longrightarrow>
            calculateEndWidth props (Some s) (Some e) =
              real_of_int (min e end - max s start) / real_of_int (end - start) * 100
            \<and> 0 < calculateEndWidth props (Some s) (Some e))
       \<and> calculateEndWidth props rowStart rowEnd \<noteq> 0"
proof -
  have W: "calculateEndWidth props (Some x) (Some y) =
      (if y < start \<or> end < x then - 1
       else if min y end \<le> max x start then 2
       else real_of_int (min y end - max x start) / real_of_int (end - start) * 100)" for x y
    by (simp add: calculateEndWidth_def Let_def start_def end_def min_def max_def)
  have pos: "0 < real_of_int (min y end - max x start) / real_of_int (end - start) * 100"
    if "max x start < min y end" for x y
  proof -
    from that have "start < end" by (simp add: min_def max_def split: if_splits)
    with that show ?thesis by simp
  qed
  have n1: "calculateEndWidth props None rowEnd = - 1"
    by (simp add: calculateEndWidth_def)
  have n2: "calculateEndWidth props rowStart None = - 1"
    by (cases rowStart) (simp_all add: calculateEndWidth_def)
  have nz: "calculateEndWidth props (Some x) (Some y) \<noteq> 0" for x y
  proof (cases "y < start \<or> end < x")
    case True
    then show ?thesis by (simp add: W)
  next
    case False
    show ?thesis
    proof (cases "min y end \<le> max x start")
      case True
      with False show ?thesis by (simp add: W)
    next
      case c: False
      then have "max x start < min y end" by linarith
      from pos [OF this] False c show ?thesis by (simp only: W if_False)
    qed
  qed
  have nonzero: "calculateEndWidth props rowStart rowEnd \<noteq> 0"
  proof (cases rowStart)
    case None
    with n1 show ?thesis by simp
  next
    case (Some x)
    show ?thesis
    proof (cases rowEnd)
      case None
      with n2 show ?thesis by simp
    next
      case (Some y)
      with \<open>rowStart = Some x\<close> nz show ?thesis by simp
    qed
  qed
  have c1: "e < start \<or> end < s \<longrightarrow> calculateEndWidth props (Some s) (Some e) = - 1"
    by (simp add: W)
  have c2: "\<not> (e < start \<or> end < s) \<and> min e end \<le> max s start \<longrightarrow>
            calculateEndWidth props (Some s) (Some e) = 2"
  proof
    assume "\<not> (e < start \<or> end < s) \<and> min e end \<le> max s start"
    then have "\<not> (e < start \<or> end < s)" "min e end \<le> max s start" by blast+
    then show "calculateEndWidth props (Some s) (Some e) = 2"
      unfolding W by (simp only: if_False if_True)
  qed
  have c3: "\<not> (e < start \<or> end < s) \<and> max s start < min e end \<longrightarrow>
            calculateEndWidth props (Some s) (Some e) =
              real_of_int (min e end - max s start) / real_of_int (end - start) * 100
            \<and> 0 < calculateEndWidth props (Some s) (Some e)"
  proof
    assume a: "\<not> (e < start \<or> end < s) \<and> max s start < min e end"
    then have g1: "\<not> (e < start \<or> end < s)" by blast
    from a have g2: "\<not> min e end \<le> max s start" by linarith
    have w: "calculateEndWidth props (Some s) (Some e) =
              real_of_int (min e end - max s start) / real_of_int (end - start) * 100"
      unfolding W using g1 g2 by (simp only: if_False)
    from a pos [of s e] have "0 < real_of_int (min e end - max s start) / real_of_int (end - start) * 100"
      by blast
    with w show "calculateEndWidth props (Some s) (Some e) =
              real_of_int (min e end - max s start) / real_of_int (end - start) * 100
            \<and> 0 < calculateEndWidth props (Some s) (Some e)"
      by (simp only: simp_thms)
  qed
  from n1 n2 c1 c2 c3 nonzero show ?thesis by blast
qed

theorem calculateEndWidth_sentinels_witness:
  "calculateEndWidth halfYearProps (Some 1700000000000) (Some 1703000000000) = - 1
   \<and> calculateEndWidth halfYearProps (Some 1710460800000) (Some 1710460800000) = 2
   \<and> calculateEndWidth halfYearProps (Some 1700000000000) (Some 1711929600000)
       = 786240000000 / 15724799999
   \<and> 0 < calculateEndWidth halfYearProps (Some 1700000000000) (Some 1711929600000)"
  using calculateEndWidth_sentinels [of halfYearProps None None 1703000000000 1700000000000]
    calculateEndWidth_sentinels [of halfYearProps None None 1710460800000 1710460800000]
    calculateEndWidth_sentinels [of halfYearProps None None 1711929600000 1700000000000]
  by (simp add: halfYear_bounds)

subsection \<open>Totality and \<open>getSegments\<close>\<close>

lemma inverted_years:
  "getFullYear 1748736000000 = 2025" "getFullYear 1706745599999 = 2024"
proof -
  have "monthIndexOf 1748736000000 = 24305"
    by (rule monthIndexOf_unique)
       (simp_all add: dayOf_def msPerDay_def dayOfMonthStart_def yearDays_def Let_def)
  then show "getFullYear 1748736000000 = 2025" by (simp add: getFullYear_def)
  have "monthIndexOf 1706745599999 = 24288"
    by (rule monthIndexOf_unique)
       (simp_all add: dayOf_def msPerDay_def dayOfMonthStart_def yearDays_def Let_def)
  then show "getFullYear 1706745599999 = 2024" by (simp add: getFullYear_def)
qed

lemma empty_bounds:
  "b_start (getTimelineBounds emptyProps) = 1704067200000"
  "b_end (getTimelineBounds emptyProps) = 1719791999999"
proof -
  have s: "foldl scanRow (None, None) (data emptyProps) = (None, None)"
    by (simp add: emptyProps_def)
  have g: "ganttStartDate emptyProps = 1704067200000" "ganttEndDate emptyProps = 1719705600000"
    by (simp_all add: emptyProps_def)
  have a: "monthIndexOf 1704067200000 = 24288"
    by (rule monthIndexOf_unique)
       (simp_all add: dayOf_def msPerDay_def dayOfMonthStart_def yearDays_def Let_def)
  have b: "monthIndexOf 1719705600000 = 24293"
    by (rule monthIndexOf_unique)
       (simp_all add: dayOf_def msPerDay_def dayOfMonthStart_def yearDays_def Let_def)
  show "b_start (getTimelineBounds emptyProps) = 1704067200000"
    by (simp add: bounds_fields s g a getFullYear_def getMonth_def centuryYear_def
        msPerDay_def dayOfMonthStart_def yearDays_def Let_def)
  show "b_end (getTimelineBounds emptyProps) = 1719791999999"
    by (simp add: bounds_fields s g b getFullYear_def getMonth_def centuryYear_def
        msPerDay_def dayOfMonthStart_def yearDays_def Let_def)
qed

lemma showInt_2024: "showInt 2024 = ''2024''"
  by code_simp

lemma empty_year_segments:
  "zoomSegments englishMonths ZoomYear 1704067200000 1719791999999 =
     [\<lparr>seg_start = 1704067200000, seg_label = ''2024''\<rparr>]"
proof -
  have a: "monthIndexOf 1704067200000 = 24288"
    by (rule monthIndexOf_unique)
       (simp_all add: dayOf_def msPerDay_def dayOfMonthStart_def yearDays_def Let_def)
  have b: "monthIndexOf 1719791999999 = 24293"
    by (rule monthIndexOf_unique)
       (simp_all add: dayOf_def msPerDay_def dayOfMonthStart_def yearDays_def Let_def)
  have n: "newDate 2024 0 1 0 0 0 0 = 1704067200000"
    by (simp add: newDate_def centuryYear_def msPerDay_def dayOfMonthStart_def yearDays_def Let_def)
  have y: "yearSegments 2024 2024 = [\<lparr>seg_start = 1704067200000, seg_label = ''2024''\<rparr>]"
    by (subst yearSegments.simps, subst yearSegments.simps) (simp add: n showInt_2024)
  show ?thesis
    by (simp add: zoomSegments_def getFullYear_def a b y del: yearSegments.simps)
qed

text \<open>
  Claim C5.  \<open>getTimelineBounds\<close>, \<open>getSegments\<close>, \<open>calculateStartX\<close> and
  \<open>calculateEndWidth\<close> are total: they have no failing branch, and each of their
  loops was shown to terminate where it was defined, for every dataset, including the
  empty one and one without dates, and every zoom level.  \<open>getSegments\<close> always
  returns at least one segment: the segments of the zoom level when there are any,
  and otherwise exactly one segment that starts at the axis start and has the empty
  label.  The months of the bounds are never empty, and the axis start differs from
  the axis end, so the two percentage functions never divide by zero.
\<close>

theorem getSegments_never_empty:
  "getSegments monthShort zoomLevel props \<noteq> []
   \<and> (zoomSegments monthShort zoomLevel (b_start (getTimelineBounds props))
          (b_end (getTimelineBounds props)) = [] \<longrightarrow>
        getSegments monthShort zoomLevel props =
          [\<lparr>seg_start = b_start (getTimelineBounds props), seg_label = []\<rparr>])
   \<and> (zoomSegments monthShort zoomLevel (b_start (getTimelineBounds props))
          (b_end (getTimelineBounds props)) \<noteq> [] \<longrightarrow>
        getSegments monthShort zoomLevel props =
          zoomSegments monthShort zoomLevel (b_start (getTimelineBounds props))
            (b_end (getTimelineBounds props)))
   \<and> b_months (getTimelineBounds props) \<noteq> []
   \<and> b_start (getTimelineBounds props) \<noteq> b_end (getTimelineBounds props)"
proof -
  have "b_months (getTimelineBounds props) \<noteq> []"
    by (simp add: getTimelineBounds_def Let_def split_beta)
  moreover have "getSegments monthShort zoomLevel props \<noteq> []"
    by (simp add: getSegments_def Let_def)
  moreover note bounds_distinct [of props]
  ultimately show ?thesis
    by (simp add: getSegments_def Let_def)
qed

theorem getSegments_never_empty_witness:
  "zoomSegments englishMonths ZoomYear (b_start (getTimelineBounds invertedProps))
      (b_end (getTimelineBounds invertedProps)) = []
   \<and> getSegments englishMonths ZoomYear invertedProps = [\<lparr>seg_start = 1748736000000, seg_label = []\<rparr>]
   \<and> getSegments englishMonths ZoomYear emptyProps = [\<lparr>seg_start = 1704067200000, seg_label = ''2024''\<rparr>]"
proof -
  have z: "zoomSegments englishMonths ZoomYear (b_start (getTimelineBounds invertedProps))
      (b_end (getTimelineBounds invertedProps)) = []"
    by (simp add: zoomSegments_def inverted_bounds inverted_years)
  with getSegments_never_empty [of englishMonths ZoomYear invertedProps]
    getSegments_never_empty [of englishMonths ZoomYear emptyProps]
  show ?thesis
    by (simp add: inverted_bounds empty_bounds empty_year_segments)
qed

section \<open>Properties of the year-zoom widths\<close>






lemma redistribute_take:
  "remainder < 0 \<Longrightarrow> ws \<noteq> [] \<Longrightarrow> 8 < ws ! ri \<Longrightarrow>
     redistribute ws remainder ri
       = redistribute (ws[ri := ws ! ri - 1]) (remainder + 1) ((ri + 1) mod length ws)"
  by (subst redistribute.simps) simp

lemma redistribute_blocked:
  "remainder < 0 \<Longrightarrow> \<not> 8 < ws ! ri \<Longrightarrow> redistribute ws remainder ri = ws"
  by (subst redistribute.simps) simp














section \<open>Properties of the end-date drag\<close>

lemma fullSpan_bounds:
  "b_start (getTimelineBounds fullSpanProps) = 1704067200000"
  "b_end (getTimelineBounds fullSpanProps) = 1719791999999"
proof -
  have s: "foldl scanRow (None, None) (data fullSpanProps) = (Some 1704067200000, Some 1719791999999)"
    by (simp add: fullSpanProps_def fullSpanRow_def mkRow_def scanRow_def pickMin_def pickMax_def)
  have a: "monthIndexOf 1704067200000 = 24288"
    by (rule monthIndexOf_unique)
       (simp_all add: dayOf_def msPerDay_def dayOfMonthStart_def yearDays_def Let_def)
  have b: "monthIndexOf 1719791999999 = 24293"
    by (rule monthIndexOf_unique)
       (simp_all add: dayOf_def msPerDay_def dayOfMonthStart_def yearDays_def Let_def)
  show "b_start (getTimelineBounds fullSpanProps) = 1704067200000"
    by (simp add: bounds_fields s a getFullYear_def getMonth_def centuryYear_def
        msPerDay_def dayOfMonthStart_def yearDays_def Let_def)
  show "b_end (getTimelineBounds fullSpanProps) = 1719791999999"
    by (simp add: bounds_fields s b getFullYear_def getMonth_def centuryYear_def
        msPerDay_def dayOfMonthStart_def yearDays_def Let_def)
qed

text \<open>
  Claim C8 says that a release after a drag with a positive pixel delta stores a date
  strictly later than the row's original end date.  The live width is clamped at
  \<open>100 - rowLeftPct\<close>: a bar that already reaches the axis end cannot grow, and the
  stored date is the original end date.  The drag is made in month zoom, from the
  idle state, which holds no override.
\<close>

theorem drag_at_axis_end_counterexample:
  "endDateOverrides (fst (dragRowEnd englishMonths fullSpanProps ZoomMonth 1000 250 True idleState
       fullSpanRow 500 100 150)) ''a''
     = Some 1719791999999
   \<and> snd (dragRowEnd englishMonths fullSpanProps ZoomMonth 1000 250 True idleState
       fullSpanRow 500 100 150) = [(''a'', 1719791999999)]
   \<and> endDate fullSpanRow = Some 1719791999999
   \<and> endDateOverrides idleState ''a'' = None
   \<and> (100::real) < 150"
  by (simp add: dragRowEnd_def barDrawn_def barOfRow_def effectiveEnd_def Let_def fullSpan_bounds
      calculateStartX_def calculateEndWidth_def
      fullSpanRow_def mkRow_def startBarEndEdit_def onBarDragMove_def onGlobalMouseUp_def
      idleState_def dateOfNumber_def)

lemma dateOfNumber_of_int: "dateOfNumber (real_of_int n) = n"
  by (simp add: dateOfNumber_def)

lemma dateOfNumber_mono: "x \<le> y \<Longrightarrow> dateOfNumber x \<le> dateOfNumber y"
proof -
  assume xy: "x \<le> y"
  show ?thesis
  proof (cases "0 \<le> x")
    case True
    with xy have "0 \<le> y" by simp
    with True xy show ?thesis by (simp add: dateOfNumber_def floor_mono)
  next
    case False
    show ?thesis
    proof (cases "0 \<le> y")
      case True
      from False have "\<lceil>x\<rceil> \<le> 0" by (simp add: ceiling_le_zero)
      moreover from True have "0 \<le> \<lfloor>y\<rfloor>" by simp
      ultimately have "\<lceil>x\<rceil> \<le> \<lfloor>y\<rfloor>" by linarith
      with False True show ?thesis by (simp add: dateOfNumber_def)
    next
      case ny: False
      with False xy show ?thesis by (simp add: dateOfNumber_def ceiling_mono)
    qed
  qed
qed

lemma dateOfNumber_ge: "real_of_int n \<le> x \<Longrightarrow> n \<le> dateOfNumber x"
  using dateOfNumber_mono [of "real_of_int n" x] by (simp add: dateOfNumber_of_int)

text \<open>The state after a move, with the clamped live width.\<close>

lemma onBarDragMove_live:
  assumes "editingEnd st = Some edit"
  shows "\<exists>edit'. editingEnd (onBarDragMove st x) = Some edit' \<and>
           rowId edit' = rowId edit \<and> rowLeftPct edit' = rowLeftPct edit \<and>
           winStart edit' = winStart edit \<and> winEnd edit' = winEnd edit \<and>
           endDateOverrides (onBarDragMove st x) = endDateOverrides st \<and>
           liveWidthPct edit' =
             (let w0 = startWidthPct edit + ((x - startX edit) / cellPx edit) * 100;
                  w1 = (if w0 < 1 then 1 else w0)
              in if w1 > 100 - rowLeftPct edit then 100 - rowLeftPct edit else w1)"
  using assms by (auto simp: onBarDragMove_def Let_def)

text \<open>
  Two more drags with a positive pixel delta.  After an earlier drag has shortened the
  row to 15 March 2024, the bar is drawn from that override, and a drag by one pixel
  stores a date in March, before the end date of the row.
\<close>

theorem drag_after_shortening_example:
  "endDateOverrides (fst (dragRowEnd englishMonths fullSpanProps ZoomMonth 1000 250 True shortenedState
       fullSpanRow 500 100 101)) ''a''
     = Some 1710492249599
   \<and> snd (dragRowEnd englishMonths fullSpanProps ZoomMonth 1000 250 True shortenedState
       fullSpanRow 500 100 101) = [(''a'', 1710492249599)]
   \<and> effectiveEnd shortenedState fullSpanRow = Some 1710460800000
   \<and> endDate fullSpanRow = Some 1719791999999"
  by (simp add: dragRowEnd_def barDrawn_def barOfRow_def effectiveEnd_def Let_def fullSpan_bounds
      calculateStartX_def calculateEndWidth_def
      fullSpanRow_def mkRow_def startBarEndEdit_def onBarDragMove_def onGlobalMouseUp_def
      shortenedState_def dateOfNumber_def)

lemma thirteenMonth_bounds:
  "b_start (getTimelineBounds thirteenMonthProps) = 1704067200000"
  "b_end (getTimelineBounds thirteenMonthProps) = 1738367999999"
proof -
  have s: "foldl scanRow (None, None) (data thirteenMonthProps) = (Some 1704067200000, Some 1738281600000)"
    by (simp add: thirteenMonthProps_def shortTender_def mkRow_def scanRow_def pickMin_def pickMax_def)
  have a: "monthIndexOf 1704067200000 = 24288"
    by (rule monthIndexOf_unique)
       (simp_all add: dayOf_def msPerDay_def dayOfMonthStart_def yearDays_def Let_def)
  have b: "monthIndexOf 1738281600000 = 24300"
    by (rule monthIndexOf_unique)
       (simp_all add: dayOf_def msPerDay_def dayOfMonthStart_def yearDays_def Let_def)
  show "b_start (getTimelineBounds thirteenMonthProps) = 1704067200000"
    by (simp add: bounds_fields s a getFullYear_def getMonth_def centuryYear_def
        msPerDay_def dayOfMonthStart_def yearDays_def Let_def)
  show "b_end (getTimelineBounds thirteenMonthProps) = 1738367999999"
    by (simp add: bounds_fields s b getFullYear_def getMonth_def centuryYear_def
        msPerDay_def dayOfMonthStart_def yearDays_def Let_def)
qed

lemma thirteenMonth_segment_starts:
  "map seg_start (getSegments englishMonths ZoomYear thirteenMonthProps) = [1704067200000, 1735689600000]"
proof -
  have a: "monthIndexOf 1704067200000 = 24288"
    by (rule monthIndexOf_unique)
       (simp_all add: dayOf_def msPerDay_def dayOfMonthStart_def yearDays_def Let_def)
  have b: "monthIndexOf 1738367999999 = 24300"
    by (rule monthIndexOf_unique)
       (simp_all add: dayOf_def msPerDay_def dayOfMonthStart_def yearDays_def Let_def)
  have n: "newDate 2024 0 1 0 0 0 0 = 1704067200000" "newDate 2025 0 1 0 0 0 0 = 1735689600000"
    by (simp_all add: newDate_def centuryYear_def msPerDay_def dayOfMonthStart_def yearDays_def Let_def)
  have y: "map seg_start (yearSegments 2024 2025) = [1704067200000, 1735689600000]"
    by (subst yearSegments.simps, subst yearSegments.simps, subst yearSegments.simps)
       (simp add: n)
  have "zoomSegments englishMonths ZoomYear 1704067200000 1738367999999 = yearSegments 2024 2025"
    by (simp add: zoomSegments_def getFullYear_def a b del: yearSegments.simps)
  moreover from y have "yearSegments 2024 2025 \<noteq> []" by auto
  ultimately show ?thesis
    using y by (simp add: getSegments_def Let_def thirteenMonth_bounds del: yearSegments.simps)
qed

lemma thirteenMonth_widths:
  "yearSegWidths englishMonths thirteenMonthProps 300 250 = [45, 8]"
proof -
  have "flooredWidths [1704067200000, 1735689600000] 1704067200000 1738367999999 50 = [46, 8]"
    by (simp add: flooredWidths_def Let_def)
  moreover have "redistribute [46, 8] (- 4) 0 = [45, 8]"
    by (simp add: redistribute_take redistribute_blocked)
  ultimately have "perSegWidthsYear [1704067200000, 1735689600000] 1704067200000 1738367999999 50 = [45, 8]"
    by (simp add: perSegWidthsYear_def Let_def)
  then show ?thesis
    by (simp add: yearSegWidths_def Let_def thirteenMonth_segment_starts thirteenMonth_bounds
        availablePxOf_def capYearWidths_def)
qed

lemma thirteenMonth_bar:
  "barOfRow englishMonths thirteenMonthProps ZoomYear 300 250 idleState shortTender
     = (0, 136500 / 3233, 136500 / 3233)"
  by (simp add: barOfRow_def effectiveEnd_def Let_def thirteenMonth_bounds
      thirteenMonth_segment_starts thirteenMonth_widths
      calculateStartX_def calculateEndWidth_def yearRangeToPct_def yearDateToPct_def
      yearPixelTotal_def shortTender_def mkRow_def idleState_def)

text \<open>
  In year zoom the bar is placed by the year pixel map.  In a container of 300 pixels
  with sticky columns of 250 pixels, the year 2024 is 45 pixels wide and January 2025
  is 8 pixels wide, which is more than its share: the right edge of a bar that ends on
  1 July 2024 is at 42.2 percent of the cell, where the window of the drag has
  24 June 2024.  A drag by one pixel in the cell of 53 pixels stores 24 June 2024,
  02:34:33.367, before the end date of the row.
\<close>

theorem drag_in_year_zoom_example:
  "endDateOverrides (fst (dragRowEnd englishMonths thirteenMonthProps ZoomYear 300 250 True idleState
       shortTender 53 100 101)) ''b''
     = Some 1719196473367
   \<and> snd (dragRowEnd englishMonths thirteenMonthProps ZoomYear 300 250 True idleState
       shortTender 53 100 101) = [(''b'', 1719196473367)]
   \<and> endDate shortTender = Some 1719792000000
   \<and> endDateOverrides idleState ''b'' = None"
  unfolding dragRowEnd_def barDrawn_def thirteenMonth_bar
  by (simp add: Let_def thirteenMonth_bounds
      startBarEndEdit_def onBarDragMove_def onGlobalMouseUp_def
      shortTender_def mkRow_def idleState_def dateOfNumber_def)

lemma drag_release_within_axis_drawn:
  assumes zoom: "zoomLevel \<noteq> ZoomYear"
    and idle: "editingEnd st = None"
    and dates: "startDate row = Some s" "effectiveEnd st row = Some e"
    and inside: "b_start (getTimelineBounds props) \<le> s" "s < e" "e \<le> b_end (getTimelineBounds props)"
  shows "barDrawn monthShort props zoomLevel containerPx fixedWidth st row"
proof -
  define start where "start = b_start (getTimelineBounds props)"
  define en where "en = b_end (getTimelineBounds props)"
  define T where "T = real_of_int (en - start)"
  define left where "left = real_of_int (s - start) / T * 100"
  define w where "w = real_of_int (e - s) / T * 100"
  have se: "start \<le> s" "s < e" "e \<le> en" using inside by (simp_all add: start_def en_def)
  then have Tpos: "0 < T" by (simp add: T_def)
  have L: "calculateStartX props (startDate row) = left"
    using se by (simp add: calculateStartX_def Let_def dates left_def T_def start_def en_def)
  have W: "calculateEndWidth props (startDate row) (effectiveEnd st row) = w"
    using se by (simp add: calculateEndWidth_def Let_def dates w_def T_def start_def en_def)
  have bar: "barOfRow monthShort props zoomLevel containerPx fixedWidth st row = (left, w, w)"
    using zoom idle by (simp add: barOfRow_def Let_def L W)
  have "0 \<le> left" using se Tpos by (simp add: left_def)
  then have left_ok: "left \<noteq> - 1" by simp
  have "0 < w" using se Tpos by (simp add: w_def)
  then have w_ok: "w \<noteq> - 1" by simp
  from left_ok w_ok show ?thesis by (simp add: barDrawn_def bar)
qed

lemma drag_release_within_axis:
  assumes zoom: "zoomLevel \<noteq> ZoomYear"
    and idle: "editingEnd st = None"
    and dates: "startDate row = Some s" "effectiveEnd st row = Some e"
    and inside: "b_start (getTimelineBounds props) \<le> s" "s < e" "e \<le> b_end (getTimelineBounds props)"
    and px: "0 < px" and delta: "x0 < x1"
  shows "\<exists>d. snd (dragRowEnd monthShort props zoomLevel containerPx fixedWidth hasCallback st row px x0 x1)
              = (if hasCallback then [(row_id row, d)] else [])
           \<and> endDateOverrides (fst (dragRowEnd monthShort props zoomLevel containerPx fixedWidth hasCallback st row px x0 x1)) (row_id row) = Some d
           \<and> editingEnd (fst (dragRowEnd monthShort props zoomLevel containerPx fixedWidth hasCallback st row px x0 x1)) = None
           \<and> e \<le> d
           \<and> (1 \<le> (x1 - x0) / px * real_of_int (b_end (getTimelineBounds props) - b_start (getTimelineBounds props))
                \<and> real_of_int e + (x1 - x0) / px * real_of_int (b_end (getTimelineBounds props) - b_start (getTimelineBounds props))
                      \<le> real_of_int (b_end (getTimelineBounds props))
                \<longrightarrow> e < d)"
proof -
  define start where "start = b_start (getTimelineBounds props)"
  define en where "en = b_end (getTimelineBounds props)"
  define T where "T = real_of_int (en - start)"
  define left where "left = real_of_int (s - start) / T * 100"
  define w where "w = real_of_int (e - s) / T * 100"
  define dl where "dl = (x1 - x0) / px * 100"
  define w1 where "w1 = (if w + dl < 1 then 1 else w + dl)"
  define w2 where "w2 = (if w1 > 100 - left then 100 - left else w1)"
  define v where "v = real_of_int start + ((left + w2) / 100) * T"
  define d where "d = dateOfNumber v"
  have se: "start \<le> s" "s < e" "e \<le> en" using inside by (simp_all add: start_def en_def)
  then have Tpos: "0 < T" by (simp add: T_def)
  have L: "calculateStartX props (startDate row) = left"
    using se by (simp add: calculateStartX_def Let_def dates left_def T_def start_def en_def)
  have W: "calculateEndWidth props (startDate row) (effectiveEnd st row) = w"
    using se by (simp add: calculateEndWidth_def Let_def dates w_def T_def start_def en_def)
  have bar: "barOfRow monthShort props zoomLevel containerPx fixedWidth st row = (left, w, w)"
    using zoom idle by (simp add: barOfRow_def Let_def L W)
  have "0 \<le> left" using se Tpos by (simp add: left_def)
  then have left_ok: "left \<noteq> - 1" by simp
  have "0 < w" using se Tpos by (simp add: w_def)
  then have w_ok: "w \<noteq> - 1" by simp
  let ?st1 = "startBarEndEdit True st x0 (row_id row) left w start en px"
  let ?edit = "\<lparr>rowId = row_id row, startX = x0, rowLeftPct = left,
                   startWidthPct = w, liveWidthPct = w, cellPx = px,
                   winStart = start, winEnd = en\<rparr>"
  have st1: "editingEnd ?st1 = Some ?edit" "endDateOverrides ?st1 = endDateOverrides st"
    by (simp_all add: startBarEndEdit_def)
  from onBarDragMove_live [OF st1(1), of x1] obtain edit' where
    e': "editingEnd (onBarDragMove ?st1 x1) = Some edit'"
      "rowId edit' = row_id row" "rowLeftPct edit' = left"
      "winStart edit' = start" "winEnd edit' = en"
      "endDateOverrides (onBarDragMove ?st1 x1) = endDateOverrides ?st1"
      "liveWidthPct edit' = w2"
    by (auto simp: Let_def w2_def w1_def dl_def)
  have run: "dragRowEnd monthShort props zoomLevel containerPx fixedWidth hasCallback st row px x0 x1 =
      onGlobalMouseUp True hasCallback (onBarDragMove ?st1 x1)"
    using left_ok w_ok by (simp add: dragRowEnd_def barDrawn_def bar Let_def start_def en_def)
  have up: "onGlobalMouseUp True hasCallback (onBarDragMove ?st1 x1) =
      ((onBarDragMove ?st1 x1)\<lparr>editingEnd := None,
          endDateOverrides := (endDateOverrides (onBarDragMove ?st1 x1))(row_id row \<mapsto> d)\<rparr>,
       if hasCallback then [(row_id row, d)] else [])"
    by (simp add: onGlobalMouseUp_def e' Let_def d_def v_def T_def)
  define val where "val = (\<lambda>a. real_of_int start + ((left + a) / 100) * T)"
  have v_val: "v = val w2" by (simp add: v_def val_def)
  have lw: "left + w = real_of_int (e - start) / T * 100"
    by (simp add: left_def w_def add_divide_distrib [symmetric] distrib_right [symmetric])
  have e_val: "val w = real_of_int e"
  proof -
    define q where "q = real_of_int (e - start) / T"
    have "left + w = q * 100" unfolding q_def by (rule lw)
    then have "(left + w) / 100 = q" by simp
    moreover have "q * T = real_of_int (e - start)" using Tpos by (simp add: q_def)
    ultimately have "val w = real_of_int start + real_of_int (e - start)"
      by (simp only: val_def)
    then show ?thesis by simp
  qed
  have end_val: "val (100 - left) = real_of_int en"
  proof -
    have "(left + (100 - left)) / 100 = 1" by simp
    then have "val (100 - left) = real_of_int start + 1 * T" by (simp only: val_def)
    then show ?thesis by (simp add: T_def)
  qed
  have val_shift: "val (a + c) = val a + c / 100 * T" for a c
    by (simp add: val_def add_divide_distrib distrib_right)
  have mono: "val a \<le> val b" if "a \<le> b" for a b
  proof -
    from that have "(left + a) / 100 \<le> (left + b) / 100" by simp
    with Tpos have "(left + a) / 100 * T \<le> (left + b) / 100 * T"
      by (intro mult_right_mono) simp_all
    then show ?thesis by (simp add: val_def)
  qed
  have mono_strict: "val a < val b" if "a < b" for a b
  proof -
    from that have "(left + a) / 100 < (left + b) / 100" by simp
    with Tpos have "(left + a) / 100 * T < (left + b) / 100 * T"
      by (intro mult_strict_right_mono) simp_all
    then show ?thesis by (simp add: val_def)
  qed
  have room: "w \<le> 100 - left"
  proof (rule ccontr)
    assume "\<not> w \<le> 100 - left"
    then have "100 - left < w" by simp
    from mono_strict [OF this] have "real_of_int en < real_of_int e"
      by (simp only: e_val end_val)
    with se(3) show False by simp
  qed
  have dlpos: "0 < dl" using px delta by (simp add: dl_def)
  have w1_ge: "w + dl \<le> w1" by (simp add: w1_def)
  have w2_ge_w: "w \<le> w2" using room w1_ge dlpos by (simp add: w2_def)
  have "real_of_int e \<le> v"
    using mono [OF w2_ge_w] by (simp only: v_val e_val)
  then have ge: "e \<le> d" unfolding d_def by (rule dateOfNumber_ge)
  have strict: "e < d"
    if big: "1 \<le> (x1 - x0) / px * T" and fits: "real_of_int e + (x1 - x0) / px * T \<le> real_of_int en"
  proof -
    have dT: "dl / 100 * T = (x1 - x0) / px * T"
    proof -
      define r where "r = (x1 - x0) / px"
      have "dl = r * 100" by (simp only: dl_def r_def)
      then have "dl / 100 = r" by simp
      then show ?thesis by (simp only: r_def)
    qed
    have val: "val (w + dl) = real_of_int e + (x1 - x0) / px * T"
      by (simp only: val_shift e_val dT)
    have "w + dl \<le> 100 - left"
    proof (rule ccontr)
      assume "\<not> w + dl \<le> 100 - left"
      then have "100 - left < w + dl" by simp
      from mono_strict [OF this] have "real_of_int en < real_of_int e + (x1 - x0) / px * T"
        by (simp only: end_val val)
      with fits show False by simp
    qed
    with w1_ge have "w + dl \<le> w2" by (simp add: w2_def)
    from mono [OF this] have "real_of_int e + (x1 - x0) / px * T \<le> v"
      by (simp only: v_val val)
    with big have "real_of_int (e + 1) \<le> v" by simp
    then have "e + 1 \<le> d" unfolding d_def by (rule dateOfNumber_ge)
    then show ?thesis by simp
  qed
  have "snd (dragRowEnd monthShort props zoomLevel containerPx fixedWidth hasCallback st row px x0 x1)
              = (if hasCallback then [(row_id row, d)] else [])"
    by (simp add: run up)
  moreover have "endDateOverrides (fst (dragRowEnd monthShort props zoomLevel containerPx fixedWidth hasCallback st row px x0 x1)) (row_id row) = Some d"
    by (simp add: run up)
  moreover have "editingEnd (fst (dragRowEnd monthShort props zoomLevel containerPx fixedWidth hasCallback st row px x0 x1)) = None"
    by (simp add: run up)
  moreover have "1 \<le> (x1 - x0) / px * real_of_int (b_end (getTimelineBounds props) - b_start (getTimelineBounds props))
                \<and> real_of_int e + (x1 - x0) / px * real_of_int (b_end (getTimelineBounds props) - b_start (getTimelineBounds props))
                      \<le> real_of_int (b_end (getTimelineBounds props))
                \<longrightarrow> e < d"
    using strict by (simp add: T_def start_def en_def)
  ultimately show ?thesis using ge by blast
qed

lemma drag_release_facts:
  assumes idle: "editingEnd st = None"
    and drawn: "barDrawn monthShort props zoomLevel containerPx fixedWidth st row"
  shows "\<exists>d. snd (dragRowEnd monthShort props zoomLevel containerPx fixedWidth hasCallback st row px x0 x1)
              = (if hasCallback then [(row_id row, d)] else [])
           \<and> endDateOverrides (fst (dragRowEnd monthShort props zoomLevel containerPx fixedWidth hasCallback st row px x0 x1)) (row_id row) = Some d
           \<and> editingEnd (fst (dragRowEnd monthShort props zoomLevel containerPx fixedWidth hasCallback st row px x0 x1)) = None"
proof -
  obtain l w lw where bar: "barOfRow monthShort props zoomLevel containerPx fixedWidth st row = (l, w, lw)"
    by (cases "barOfRow monthShort props zoomLevel containerPx fixedWidth st row") auto
  define start where "start = b_start (getTimelineBounds props)"
  define en where "en = b_end (getTimelineBounds props)"
  let ?st1 = "startBarEndEdit True st x0 (row_id row) l lw start en px"
  let ?edit = "\<lparr>rowId = row_id row, startX = x0, rowLeftPct = l,
                   startWidthPct = lw, liveWidthPct = lw, cellPx = px,
                   winStart = start, winEnd = en\<rparr>"
  have st1: "editingEnd ?st1 = Some ?edit"
    by (simp add: startBarEndEdit_def)
  from onBarDragMove_live [OF st1, of x1] obtain edit' where
    e': "editingEnd (onBarDragMove ?st1 x1) = Some edit'" "rowId edit' = row_id row"
    by auto
  have run: "dragRowEnd monthShort props zoomLevel containerPx fixedWidth hasCallback st row px x0 x1 =
      onGlobalMouseUp True hasCallback (onBarDragMove ?st1 x1)"
    using drawn by (simp add: dragRowEnd_def bar Let_def start_def en_def)
  define d where "d = dateOfNumber (real_of_int (winStart edit')
      + ((rowLeftPct edit' + liveWidthPct edit') / 100) * real_of_int (winEnd edit' - winStart edit'))"
  have up: "onGlobalMouseUp True hasCallback (onBarDragMove ?st1 x1) =
      ((onBarDragMove ?st1 x1)\<lparr>editingEnd := None,
          endDateOverrides := (endDateOverrides (onBarDragMove ?st1 x1))(row_id row \<mapsto> d)\<rparr>,
       if hasCallback then [(row_id row, d)] else [])"
    by (simp add: onGlobalMouseUp_def e' Let_def d_def)
  show ?thesis
    by (rule exI [of _ d]) (simp add: run up)
qed

text \<open>
  Claim C8, amended.  The handle of a row that the table draws is pressed while no
  drag is in progress, in a cell of positive width, and released after one move.
  In every zoom level, when the bar of the row is drawn, the release clears the drag,
  stores one date for the dragged row and passes the same date to \<open>onEndDateChange\<close>,
  which is called exactly once when the host supplied it (and not at all otherwise).
  In month or week zoom, for a row whose bar lies within the axis (axis start \<open>\<le>\<close>
  start date \<open><\<close> shown end date \<open>\<le>\<close> axis end, where the shown end date \<open>effectiveEnd\<close>
  is the override stored by an earlier drag of the row if there is one, and the end
  date of the row otherwise) and a positive pixel delta, the bar is drawn, and the
  stored date is never earlier than the shown end date; it is strictly later when the
  drag amounts to at least one millisecond of axis time and does not run past the
  axis end.
\<close>

theorem drag_release_stores_later_date:
  assumes idle: "editingEnd st = None"
    and px: "0 < px"
    and key: "row_id row \<notin> set objectPrototypeKeys"
  shows "(barDrawn monthShort props zoomLevel containerPx fixedWidth st row \<longrightarrow>
           (\<exists>d. snd (dragRowEnd monthShort props zoomLevel containerPx fixedWidth hasCallback st row px x0 x1)
                   = (if hasCallback then [(row_id row, d)] else [])
               \<and> endDateOverrides (fst (dragRowEnd monthShort props zoomLevel containerPx fixedWidth hasCallback st row px x0 x1)) (row_id row) = Some d
               \<and> editingEnd (fst (dragRowEnd monthShort props zoomLevel containerPx fixedWidth hasCallback st row px x0 x1)) = None))
       \<and> (zoomLevel \<noteq> ZoomYear \<and> startDate row = Some s \<and> effectiveEnd st row = Some e
            \<and> b_start (getTimelineBounds props) \<le> s \<and> s < e \<and> e \<le> b_end (getTimelineBounds props)
            \<and> x0 < x1 \<longrightarrow>
           barDrawn monthShort props zoomLevel containerPx fixedWidth st row
           \<and> (\<exists>d. snd (dragRowEnd monthShort props zoomLevel containerPx fixedWidth hasCallback st row px x0 x1)
                   = (if hasCallback then [(row_id row, d)] else [])
               \<and> endDateOverrides (fst (dragRowEnd monthShort props zoomLevel containerPx fixedWidth hasCallback st row px x0 x1)) (row_id row) = Some d
               \<and> e \<le> d
               \<and> (1 \<le> (x1 - x0) / px * real_of_int (b_end (getTimelineBounds props) - b_start (getTimelineBounds props))
                    \<and> real_of_int e + (x1 - x0) / px * real_of_int (b_end (getTimelineBounds props) - b_start (getTimelineBounds props))
                          \<le> real_of_int (b_end (getTimelineBounds props))
                    \<longrightarrow> e < d)))"
proof (intro conjI impI)
  assume "barDrawn monthShort props zoomLevel containerPx fixedWidth st row"
  with idle show "\<exists>d. snd (dragRowEnd monthShort props zoomLevel containerPx fixedWidth hasCallback st row px x0 x1)
                   = (if hasCallback then [(row_id row, d)] else [])
               \<and> endDateOverrides (fst (dragRowEnd monthShort props zoomLevel containerPx fixedWidth hasCallback st row px x0 x1)) (row_id row) = Some d
               \<and> editingEnd (fst (dragRowEnd monthShort props zoomLevel containerPx fixedWidth hasCallback st row px x0 x1)) = None"
    by (rule drag_release_facts)
next
  assume a: "zoomLevel \<noteq> ZoomYear \<and> startDate row = Some s \<and> effectiveEnd st row = Some e
            \<and> b_start (getTimelineBounds props) \<le> s \<and> s < e \<and> e \<le> b_end (getTimelineBounds props)
            \<and> x0 < x1"
  then have z: "zoomLevel \<noteq> ZoomYear" and d: "startDate row = Some s" "effectiveEnd st row = Some e"
    and i: "b_start (getTimelineBounds props) \<le> s" "s < e" "e \<le> b_end (getTimelineBounds props)"
    and x: "x0 < x1" by simp_all
  show "barDrawn monthShort props zoomLevel containerPx fixedWidth st row"
    using z idle d i by (rule drag_release_within_axis_drawn)
  from drag_release_within_axis [OF z idle d i px x]
  show "\<exists>d. snd (dragRowEnd monthShort props zoomLevel containerPx fixedWidth hasCallback st row px x0 x1)
                   = (if hasCallback then [(row_id row, d)] else [])
               \<and> endDateOverrides (fst (dragRowEnd monthShort props zoomLevel containerPx fixedWidth hasCallback st row px x0 x1)) (row_id row) = Some d
               \<and> e \<le> d
               \<and> (1 \<le> (x1 - x0) / px * real_of_int (b_end (getTimelineBounds props) - b_start (getTimelineBounds props))
                    \<and> real_of_int e + (x1 - x0) / px * real_of_int (b_end (getTimelineBounds props) - b_start (getTimelineBounds props))
                          \<le> real_of_int (b_end (getTimelineBounds props))
                    \<longrightarrow> e < d)"
    by blast
qed

theorem drag_release_stores_later_date_witness:
  "(\<exists>d. snd (dragRowEnd englishMonths halfYearProps ZoomMonth 1000 250 True idleState
              (mkRow ''a'' ''Alpha'' (Some 1704067200000) (Some 1719705600000) ''project'' []) 500 100 101)
          = [(''a'', d)]
       \<and> endDateOverrides (fst (dragRowEnd englishMonths halfYearProps ZoomMonth 1000 250 True idleState
              (mkRow ''a'' ''Alpha'' (Some 1704067200000) (Some 1719705600000) ''project'' []) 500 100 101))
            ''a'' = Some d
       \<and> 1719705600000 < d)
   \<and> (\<exists>d. snd (dragRowEnd englishMonths thirteenMonthProps ZoomYear 300 250 True idleState
              shortTender 53 100 101)
          = [(''b'', d)]
       \<and> endDateOverrides (fst (dragRowEnd englishMonths thirteenMonthProps ZoomYear 300 250 True idleState
              shortTender 53 100 101))
            ''b'' = Some d)"
proof -
  let ?row = "mkRow ''a'' ''Alpha'' (Some 1704067200000) (Some 1719705600000) ''project'' []"
  have n: "editingEnd idleState = None" by (simp add: idleState_def)
  have p: "(0::real) < 500" and p': "(0::real) < 53" by simp_all
  have k: "row_id ?row \<notin> set objectPrototypeKeys"
    and k': "row_id shortTender \<notin> set objectPrototypeKeys"
    by (simp_all add: mkRow_def shortTender_def objectPrototypeKeys_def)
  have inside: "ZoomMonth \<noteq> ZoomYear \<and> startDate ?row = Some 1704067200000
      \<and> effectiveEnd idleState ?row = Some 1719705600000
      \<and> b_start (getTimelineBounds halfYearProps) \<le> 1704067200000
      \<and> (1704067200000::int) < 1719705600000
      \<and> 1719705600000 \<le> b_end (getTimelineBounds halfYearProps)
      \<and> (100::real) < 101"
    by (simp add: mkRow_def effectiveEnd_def idleState_def halfYear_bounds)
  have big: "1 \<le> (101 - 100) / 500 *
      real_of_int (b_end (getTimelineBounds halfYearProps) - b_start (getTimelineBounds halfYearProps))
    \<and> real_of_int 1719705600000 + (101 - 100) / 500 *
      real_of_int (b_end (getTimelineBounds halfYearProps) - b_start (getTimelineBounds halfYearProps))
      \<le> real_of_int (b_end (getTimelineBounds halfYearProps))"
    by (simp add: halfYear_bounds)
  have drawn: "barDrawn englishMonths thirteenMonthProps ZoomYear 300 250 idleState shortTender"
    by (simp add: barDrawn_def thirteenMonth_bar)
  have A: "\<exists>d. snd (dragRowEnd englishMonths halfYearProps ZoomMonth 1000 250 True idleState ?row 500 100 101)
          = [(''a'', d)]
       \<and> endDateOverrides (fst (dragRowEnd englishMonths halfYearProps ZoomMonth 1000 250 True idleState
              ?row 500 100 101)) ''a'' = Some d
       \<and> 1719705600000 < d"
    using drag_release_stores_later_date [OF n p k,
        of englishMonths halfYearProps ZoomMonth 1000 250 True 100 101 1704067200000 1719705600000]
      inside big
    by (auto simp: mkRow_def)
  have B: "\<exists>d. snd (dragRowEnd englishMonths thirteenMonthProps ZoomYear 300 250 True idleState
              shortTender 53 100 101) = [(''b'', d)]
       \<and> endDateOverrides (fst (dragRowEnd englishMonths thirteenMonthProps ZoomYear 300 250 True idleState
              shortTender 53 100 101)) ''b'' = Some d"
    using drag_release_stores_later_date [OF n p' k',
        of englishMonths thirteenMonthProps ZoomYear 300 250 True 100 101] drawn
    by (auto simp: shortTender_def mkRow_def)
  from A B show ?thesis by blast
qed

section \<open>Properties of the color resolution\<close>

text \<open>
  Claim C9.  The color resolution is a total function: the only operation that can
  raise, \<open>JSON.parse\<close>, is caught and followed by the manual parse.  For every host
  parser: the input \<open>#FFA,#00F\<close> yields the list \<open>#FFA\<close>, \<open>#00F\<close>; the labelled input
  yields the same list in either order of its tokens; the empty and the undefined
  input, when the dataset gives no colors either, yield the default pair; and the
  malformed input \<open>[#FFA,#00F\<close> is parsed manually into \<open>#FFA\<close>, \<open>#00F\<close>.
\<close>

theorem color_resolution_vectors:
  "resolveColors hostParse (Some ''#FFA,#00F'') datasetColors = [''#FFA'', ''#00F'']
   \<and> resolveColors hostParse (Some ''tender: #00F, project: #FFA'') datasetColors = [''#FFA'', ''#00F'']
   \<and> resolveColors hostParse (Some ''project: #FFA, tender: #00F'') datasetColors = [''#FFA'', ''#00F'']
   \<and> resolveColors hostParse (Some []) None = [''#FFB74D'', ''#90CAF9'']
   \<and> resolveColors hostParse None None = [''#FFB74D'', ''#90CAF9'']
   \<and> resolveColors hostParse None (Some []) = [''#FFB74D'', ''#90CAF9'']
   \<and> parseColors hostParse (Some ''[#FFA,#00F'') = [''#FFA'', ''#00F'']
   \<and> resolveColors hostParse (Some ''[#FFA,#00F'') datasetColors = [''#FFA'', ''#00F'']"
  by code_simp

section \<open>The hierarchy ordering returns\<close>

lemma collect_all_Inr:
  "\<forall>k\<in>set ks. \<exists>zs. f k = Inr zs \<Longrightarrow> \<exists>ys. collect (map f ks) = Inr ys"
proof (induction ks)
  case Nil
  then show ?case by simp
next
  case (Cons k ks)
  then obtain zs ys where "f k = Inr zs" "collect (map f ks) = Inr ys" by auto
  then show ?case by simp
qed

lemma indexChildren_total:
  "\<forall>r\<in>set rs. parentId r \<notin> set objectPrototypeKeys \<Longrightarrow> \<exists>m'. indexChildren rs m = Inr m'"
  by (induction rs arbitrary: m) (simp_all add: Let_def)

lemma process_total:
  assumes m: "\<forall>k. \<forall>r\<in>set (entries m k). r \<in> R \<and> parentId r = k"
    and keys: "\<forall>r\<in>R. row_id r \<notin> set objectPrototypeKeys"
    and rank: "\<forall>r\<in>R. rank (parentId r) < rank (row_id r) \<and> rank (row_id r) \<le> N"
  shows "row \<in> R \<Longrightarrow> N - rank (row_id row) < n \<Longrightarrow> \<exists>xs. process n c m row lvl = Inr xs"
proof (induction n arbitrary: row lvl)
  case 0
  then show ?case by simp
next
  case (Suc n)
  let ?kids = "sortList c (filter (\<lambda>k. \<not> isMilestone k) (entries m (row_id row)))"
  from Suc.prems(1) keys have k: "kidsOf m (row_id row) = Inr (entries m (row_id row))"
    by (simp add: kidsOf_def)
  have "\<exists>zs. process n c m child (lvl + 1) = Inr zs" if "child \<in> set ?kids" for child
  proof -
    from that m have ch: "child \<in> R" "parentId child = row_id row"
      by (auto simp: set_sortList)
    with rank have "rank (row_id row) < rank (row_id child)" "rank (row_id child) \<le> N"
      by auto
    with Suc.prems(2) have "N - rank (row_id child) < n" by arith
    with ch(1) show ?thesis by (rule Suc.IH)
  qed
  then have "\<exists>ys. collect (map (\<lambda>child. process n c m child (lvl + 1)) ?kids) = Inr ys"
    by (intro collect_all_Inr) blast
  then obtain ys where "collect (map (\<lambda>child. process n c m child (lvl + 1)) ?kids) = Inr ys"
    by blast
  with k show ?case by (simp add: Let_def)
qed

text \<open>
  \<open>orderGanttRows\<close> returns a sequence when no id and no \<open>parentId\<close> of the rows
  that passed the filter names a member of \<open>Object.prototype\<close> and the parent
  references have no cycle: some rank of the ids grows from every parent to its child
  and stays within \<open>N\<close>.  A stack of \<open>N + 1\<close> nested calls of \<open>process\<close> is then enough.
\<close>

theorem orderGanttRows_returns:
  assumes keys: "\<forall>r\<in>set (liveRows props_data).
      parentId r \<notin> set objectPrototypeKeys \<and> row_id r \<notin> set objectPrototypeKeys"
    and rank: "\<forall>r\<in>set (liveRows props_data).
      rank (parentId r) < rank (row_id r) \<and> rank (row_id r) \<le> N"
  shows "\<exists>res. orderGanttRows (Suc N) lc sortField sortDir props_data = Inr res"
proof -
  let ?c = "compare lc sortField sortDir"
  from keys obtain m where ix: "indexChildren (liveRows props_data) Map.empty = Inr m"
    using indexChildren_total [of "liveRows props_data" Map.empty] by blast
  have e: "entries m k = filter (\<lambda>r. parentId r = k) (liveRows props_data)" for k
    using entries_indexChildren [OF ix, of k] by (simp add: entries_empty)
  have m: "\<forall>k. \<forall>r\<in>set (entries m k). r \<in> set (liveRows props_data) \<and> parentId r = k"
    by (simp add: e)
  let ?roots = "sortList ?c (filter (\<lambda>r. \<not> isMilestone r) (entries m []))"
  have "\<exists>zs. process (Suc N) ?c m root 0 = Inr zs" if "root \<in> set ?roots" for root
  proof -
    from that have "root \<in> set (liveRows props_data)" by (simp add: set_sortList e)
    moreover have "N - rank (row_id root) < Suc N" by simp
    ultimately show ?thesis
      using process_total [of m "set (liveRows props_data)" rank N root "Suc N" ?c 0] m keys rank
      by blast
  qed
  then have "\<exists>ys. collect (map (\<lambda>r. process (Suc N) ?c m r 0) ?roots) = Inr ys"
    by (intro collect_all_Inr) blast
  with ix show ?thesis
    by (simp add: orderGanttRows_def Let_def liveRows_def)
qed


lemma orderGanttRows_returns_example:
  "\<exists>res. orderGanttRows 3 lc sortField sortDir orphanData = Inr res"
proof -
  define rank :: "string \<Rightarrow> nat" where
    "rank = (\<lambda>k. if k = [] then 0 else if k = ''a'' \<or> k = ''zzz'' then 1 else 2)"
  have keys: "\<forall>r\<in>set (liveRows orphanData).
      parentId r \<notin> set objectPrototypeKeys \<and> row_id r \<notin> set objectPrototypeKeys"
    by (simp add: orphanData_def liveRows_def mkRow_def objectPrototypeKeys_def)
  have rk: "\<forall>r\<in>set (liveRows orphanData).
      rank (parentId r) < rank (row_id r) \<and> rank (row_id r) \<le> 2"
    by (simp add: orphanData_def liveRows_def mkRow_def rank_def)
  from orderGanttRows_returns [OF keys rk] show ?thesis
    by (simp add: numeral_3_eq_3 numeral_2_eq_2)
qed

end
